theory Spec2Isabelle
  imports Main "HOL-Library.Sublist"
begin

section \<open>The delivery session of \<^verbatim>\<open>cli_code/data_deliverer.py\<close>\<close>

text \<open>
  The class \<^verbatim>\<open>DataDeliverer\<close> keeps one dictionary per file under delivery and
  drives it through classification, processing, upload and registration. The
  embedding follows the methods of the class one by one. Dictionaries with a fixed
  key set are records, exceptions are values of the type \<open>exn\<close>, and every method
  that can raise returns a sum with the exception on the left.

  The collaborators imported from \<^verbatim>\<open>cli_code.file_handler\<close>,
  \<^verbatim>\<open>cli_code.s3_connector\<close> and \<^verbatim>\<open>cli_code.database_connector\<close> and the
  filesystem are arguments of the methods: what they answer is a parameter, what
  the class does with the answer is the definition. What is logged or printed
  is kept for \<^verbatim>\<open>_finalize\<close>, \<^verbatim>\<open>_clear_tempdir\<close>, \<^verbatim>\<open>__exit__\<close> and \<^verbatim>\<open>get\<close>,
  and left out of the other methods, whose messages repeat the error text they
  return or store.
\<close>

subsection \<open>Data model\<close>

type_synonym path = string

datatype exn =
    DeliveryOptionException string
  | DeliverySystemException string
  | CouchDBException string
  | ClientError string
  | S3Error string
  | OSError string
  | KeyError string
  | SystemExit string

text \<open>The value of the keys \<^verbatim>\<open>'processing'\<close>, \<^verbatim>\<open>'upload'\<close> and \<^verbatim>\<open>'database'\<close>.\<close>

record stage =
  in_progress :: bool
  finished :: bool

text \<open>
  The dictionary that \<^verbatim>\<open>get_file_info\<close> returns for a file it accepts. The keys
  \<^verbatim>\<open>'size'\<close> and \<^verbatim>\<open>'suffixes'\<close> are the fields \<open>size_info\<close> and
  \<open>file_suffixes\<close>; paths are kept as their strings.
\<close>

record file_info =
  in_directory :: bool
  dir_name :: "path option"
  path_base :: "string option"
  directory_path :: path
  size_info :: nat
  file_suffixes :: "string list"
  proceed :: bool
  compressed :: bool
  new_file :: string
  error :: string
  encrypted_file :: path
  encrypted_size :: nat
  processing :: stage
  upload :: stage
  database :: stage

text \<open>
  What \<^verbatim>\<open>get_file_info\<close> returns: \<open>Rejected e\<close> is the two-key dictionary
  \<^verbatim>\<open>{'proceed': False, 'error': e}\<close>, \<open>Accepted i\<close> the full dictionary.
\<close>

datatype classification = Rejected string | Accepted file_info

fun proceeds :: "classification \<Rightarrow> bool" where
  "proceeds (Rejected e) = False"
| "proceeds (Accepted i) = proceed i"

text \<open>
  A source file as \<^verbatim>\<open>pathlib\<close> and the filesystem describe it: \<^verbatim>\<open>str(file)\<close>,
  \<^verbatim>\<open>file.name\<close>, \<^verbatim>\<open>file.suffixes\<close> and \<^verbatim>\<open>file.stat().st_size\<close>.
\<close>

record source_file =
  f_path :: path
  f_name :: string
  f_suffixes :: "string list"
  st_size :: nat

text \<open>
  The collaborators of the classification. \<open>is_compressed\<close> and \<open>get_root_path\<close>
  are the functions of \<^verbatim>\<open>cli_code.file_handler\<close>; \<open>project_files\<close> is the key set of
  \<^verbatim>\<open>project_db[self.project_id]['files']\<close>; \<open>file_exists_in_bucket\<close> is the method
  of \<^verbatim>\<open>S3Connector\<close>, which answers with a flag and an error text.
\<close>

record stores =
  is_compressed :: "path \<Rightarrow> bool \<times> string"
  get_root_path :: "path \<Rightarrow> string option \<Rightarrow> path"
  project_files :: "string set"
  file_exists_in_bucket :: "string \<Rightarrow> bool \<times> string"

text \<open>The attributes of \<^verbatim>\<open>self\<close> that the classification reads.\<close>

record options =
  break_on_fail :: bool
  overwrite :: bool

subsection \<open>Paths and suffixes\<close>

text \<open>
  \<^verbatim>\<open>str(directory_path / Path(name))\<close> for a name without a separator: the empty
  path prints as a dot and contributes nothing, a path that ends in the separator
  (a root) takes the name directly, every other path takes a separator first.
\<close>

definition path_join :: "path \<Rightarrow> string \<Rightarrow> path" where
  "path_join d n =
     (if d = [] \<or> d = ''.'' then n
      else if last d = CHR ''/'' then d @ n
      else d @ ''/'' @ n)"

text \<open>
  The suffix both classification methods compute in \<^verbatim>\<open>proc_suff\<close>: the Zstandard
  marker when the header check says the file is not compressed, then the ChaCha20
  marker in every case.
\<close>

definition proc_suff :: "bool \<Rightarrow> string" where
  "proc_suff is_compr = (if \<not> is_compr then ''.zst'' else []) @ ''.ccp''"

definition bucketfilename :: "path \<Rightarrow> string \<Rightarrow> bool \<Rightarrow> string" where
  "bucketfilename dpath name is_compr = path_join dpath (name @ proc_suff is_compr)"

text \<open>The two error texts of the existence check.\<close>

definition already_in_db :: "string \<Rightarrow> string" where
  "already_in_db file = ''File '' @ [CHR 0x27] @ file @ [CHR 0x27] @ '' already exists in the database. ''"

definition contact_support :: "string \<Rightarrow> string \<Rightarrow> string" where
  "contact_support err name =
     err @ [CHR 0x0A] @ ''File '' @ [CHR 0x27] @ name @ [CHR 0x27] @
     '' already exists in bucket, but does NOT exist in database. '' @
     ''Delivery cancelled, contact support.''"

subsection \<open>Classification: \<^verbatim>\<open>get_file_info\<close> and \<^verbatim>\<open>do_file_checks\<close>\<close>

text \<open>
  \<^verbatim>\<open>get_file_info(self, file, in_dir, dir_name)\<close>. It returns early when the
  header check reports an error, when the key is registered and \<^verbatim>\<open>overwrite\<close> is
  off, when the key is in the bucket but was not found registered, and when it is
  in the bucket and \<^verbatim>\<open>overwrite\<close> is off. \<open>dname\<close> is \<^verbatim>\<open>dir_name\<close> and \<open>dbase\<close>
  is \<^verbatim>\<open>dir_name.name\<close>.
\<close>

definition get_file_info ::
  "options \<Rightarrow> stores \<Rightarrow> source_file \<Rightarrow> bool \<Rightarrow> path \<Rightarrow> string \<Rightarrow> classification" where
  "get_file_info self st file in_dir dname dbase =
     (let pbase = (if in_dir then Some dbase else None);
          dpath = get_root_path st (f_path file) pbase;
          (compr, err) = is_compressed st (f_path file)
      in if err \<noteq> [] then Rejected err
         else
           let key = bucketfilename dpath (f_name file) compr;
               registered = (key \<in> project_files st)
           in if registered \<and> \<not> overwrite self then Rejected (already_in_db (f_path file))
              else
                let in_db = registered;
                    (in_bucket, err2) = file_exists_in_bucket st key
                in if in_bucket \<and> \<not> in_db then Rejected (contact_support err2 (f_name file))
                   else if in_bucket \<and> \<not> overwrite self then Rejected err2
                   else Accepted
                     \<lparr>in_directory = in_dir,
                      dir_name = (if in_dir then Some dname else None),
                      path_base = pbase,
                      directory_path = dpath,
                      size_info = st_size file,
                      file_suffixes = f_suffixes file,
                      proceed = True,
                      compressed = compr,
                      new_file = key,
                      error = err2,
                      encrypted_file = [],
                      encrypted_size = 0,
                      processing = \<lparr>in_progress = False, finished = False\<rparr>,
                      upload = \<lparr>in_progress = False, finished = False\<rparr>,
                      database = \<lparr>in_progress = False, finished = False\<rparr>\<rparr>)"

text \<open>
  \<^verbatim>\<open>do_file_checks(self, file, directory_path, suffixes)\<close> returns the tuple
  (proceed, compressed, bucketfilename, error). It never reads \<^verbatim>\<open>self.overwrite\<close>.
\<close>

definition do_file_checks ::
  "options \<Rightarrow> stores \<Rightarrow> source_file \<Rightarrow> path \<Rightarrow> bool \<times> bool \<times> string \<times> string" where
  "do_file_checks self st file dpath =
     (let (compr, err) = is_compressed st (f_path file)
      in if err \<noteq> [] then (False, compr, [], err)
         else
           let key = bucketfilename dpath (f_name file) compr
           in if key \<in> project_files st
              then (False, compr, key, already_in_db (f_path file))
              else
                let (in_bucket, err2) = file_exists_in_bucket st key
                in if in_bucket then (False, compr, key, contact_support err2 (f_name file))
                   else (True, compr, key, err2))"

subsection \<open>The delivery dictionaries \<^verbatim>\<open>self.data\<close> and \<^verbatim>\<open>self.failed\<close>\<close>

text \<open>
  \<^verbatim>\<open>self.data\<close> of a put session maps each source path to the dictionary of its
  file, in insertion order: an association list whose keys are distinct.
  \<open>map_of d p\<close> is \<^verbatim>\<open>self.data[p]\<close>, and \<open>update_entry p f d\<close> changes the
  dictionary stored under \<open>p\<close> in place.
\<close>

type_synonym data = "(path \<times> file_info) list"

definition update_entry :: "path \<Rightarrow> (file_info \<Rightarrow> file_info) \<Rightarrow> data \<Rightarrow> data" where
  "update_entry p f d = map (\<lambda>(k, v). if k = p then (k, f v) else (k, v)) d"

text \<open>
  \<^verbatim>\<open>self.failed\<close> is keyed by paths of files and of directories (and by
  \<^verbatim>\<open>None\<close>, the directory name of a file outside a directory). Its values are
  dictionaries themselves: the rejected classification
  \<^verbatim>\<open>{'proceed': False, 'error': e}\<close>, the single entry \<^verbatim>\<open>{'error': e}\<close>, or, for
  a directory, one entry \<^verbatim>\<open>{'error': e}\<close> per failed file.
\<close>

datatype fkey = Field string | File path

datatype fval = Flag bool | Text string | Err string

type_synonym fdict = "(fkey \<times> fval) list"

type_synonym failed = "(path option \<times> fdict) list"

text \<open>Assignment to a key of a dictionary: the value is replaced where the key is, else appended.\<close>

fun assign :: "'k \<Rightarrow> 'v \<Rightarrow> ('k \<times> 'v) list \<Rightarrow> ('k \<times> 'v) list" where
  "assign k v [] = [(k, v)]"
| "assign k v ((k', v') # al) = (if k' = k then (k, v) # al else (k', v') # assign k v al)"

definition str_opt :: "path option \<Rightarrow> string" where
  "str_opt p = (case p of None \<Rightarrow> ''None'' | Some s \<Rightarrow> s)"

text \<open>\<^verbatim>\<open>self.failed[k][k2] = v\<close>, which raises when \<open>k\<close> is not a key.\<close>

definition failed_put :: "failed \<Rightarrow> path option \<Rightarrow> fkey \<Rightarrow> fval \<Rightarrow> exn + failed" where
  "failed_put fl k k2 v =
     (case map_of fl k of
        None \<Rightarrow> Inl (KeyError (str_opt k))
      | Some e \<Rightarrow> Inr (assign k (assign k2 v e) fl))"

subsection \<open>\<^verbatim>\<open>set_progress\<close>\<close>

definition to_update :: "bool \<Rightarrow> bool \<Rightarrow> bool \<Rightarrow> string" where
  "to_update proc upl db =
     (if proc then ''processing'' else if upl then ''upload'' else if db then ''database'' else [])"

text \<open>\<^verbatim>\<open>info[key]\<close> for the keys \<^verbatim>\<open>set_progress\<close> can choose; the empty key is missing.\<close>

definition stage_at :: "string \<Rightarrow> file_info \<Rightarrow> stage option" where
  "stage_at k i =
     (if k = ''processing'' then Some (processing i)
      else if k = ''upload'' then Some (upload i)
      else if k = ''database'' then Some (database i)
      else None)"

definition set_stage :: "string \<Rightarrow> stage \<Rightarrow> file_info \<Rightarrow> file_info" where
  "set_stage k s i =
     (if k = ''processing'' then i\<lparr>processing := s\<rparr>
      else if k = ''upload'' then i\<lparr>upload := s\<rparr>
      else if k = ''database'' then i\<lparr>database := s\<rparr>
      else i)"

text \<open>\<^verbatim>\<open>self.data[item][key].update({'in_progress': a, 'finished': b})\<close>.\<close>

definition update_stage :: "data \<Rightarrow> path \<Rightarrow> string \<Rightarrow> bool \<Rightarrow> bool \<Rightarrow> exn + data" where
  "update_stage d item k a b =
     (case map_of d item of
        None \<Rightarrow> Inl (KeyError item)
      | Some i \<Rightarrow>
          (case stage_at k i of
             None \<Rightarrow> Inl (KeyError k)
           | Some s \<Rightarrow> Inr (update_entry item (set_stage k (s\<lparr>in_progress := a, finished := b\<rparr>)) d)))"

text \<open>
  \<^verbatim>\<open>set_progress(self, item, check, processing, upload, db, started, finished)\<close>.
  The stage is chosen by the first flag that is set; \<^verbatim>\<open>started\<close> is looked at
  before \<^verbatim>\<open>finished\<close>, and nothing is read or written when both are off. The
  handler for \<^verbatim>\<open>DataException\<close> does not catch the \<^verbatim>\<open>KeyError\<close> of a missing key.
\<close>

definition set_progress ::
  "data \<Rightarrow> path \<Rightarrow> bool \<Rightarrow> bool \<Rightarrow> bool \<Rightarrow> bool \<Rightarrow> bool \<Rightarrow> bool \<Rightarrow> exn + data" where
  "set_progress d item check proc upl db started fin =
     (if started then update_stage d item (to_update proc upl db) started (\<not> started)
      else if fin then update_stage d item (to_update proc upl db) (\<not> fin) fin
      else Inr d)"

subsection \<open>\<^verbatim>\<open>update_delivery\<close>\<close>

text \<open>
  The argument \<^verbatim>\<open>updinfo\<close> is a dictionary over keys of the file dictionary; a key
  it does not have is \<open>None\<close>.
\<close>

record updinfo =
  u_in_directory :: "bool option"
  u_dir_name :: "path option option"
  u_path_base :: "string option option"
  u_directory_path :: "path option"
  u_size :: "nat option"
  u_suffixes :: "string list option"
  u_proceed :: "bool option"
  u_compressed :: "bool option"
  u_new_file :: "string option"
  u_error :: "string option"
  u_encrypted_file :: "path option"
  u_encrypted_size :: "nat option"
  u_processing :: "stage option"
  u_upload :: "stage option"
  u_database :: "stage option"

definition put_key :: "'a option \<Rightarrow> ('a \<Rightarrow> file_info \<Rightarrow> file_info) \<Rightarrow> file_info \<Rightarrow> file_info" where
  "put_key v setter i = (case v of None \<Rightarrow> i | Some x \<Rightarrow> setter x i)"

text \<open>\<^verbatim>\<open>info.update(updinfo)\<close>.\<close>

definition dict_update :: "updinfo \<Rightarrow> file_info \<Rightarrow> file_info" where
  "dict_update u =
     put_key (u_database u) (\<lambda>x i. i\<lparr>database := x\<rparr>) \<circ>
     put_key (u_upload u) (\<lambda>x i. i\<lparr>upload := x\<rparr>) \<circ>
     put_key (u_processing u) (\<lambda>x i. i\<lparr>processing := x\<rparr>) \<circ>
     put_key (u_encrypted_size u) (\<lambda>x i. i\<lparr>encrypted_size := x\<rparr>) \<circ>
     put_key (u_encrypted_file u) (\<lambda>x i. i\<lparr>encrypted_file := x\<rparr>) \<circ>
     put_key (u_error u) (\<lambda>x i. i\<lparr>error := x\<rparr>) \<circ>
     put_key (u_new_file u) (\<lambda>x i. i\<lparr>new_file := x\<rparr>) \<circ>
     put_key (u_compressed u) (\<lambda>x i. i\<lparr>compressed := x\<rparr>) \<circ>
     put_key (u_proceed u) (\<lambda>x i. i\<lparr>proceed := x\<rparr>) \<circ>
     put_key (u_suffixes u) (\<lambda>x i. i\<lparr>file_suffixes := x\<rparr>) \<circ>
     put_key (u_size u) (\<lambda>x i. i\<lparr>size_info := x\<rparr>) \<circ>
     put_key (u_directory_path u) (\<lambda>x i. i\<lparr>directory_path := x\<rparr>) \<circ>
     put_key (u_path_base u) (\<lambda>x i. i\<lparr>path_base := x\<rparr>) \<circ>
     put_key (u_dir_name u) (\<lambda>x i. i\<lparr>dir_name := x\<rparr>) \<circ>
     put_key (u_in_directory u) (\<lambda>x i. i\<lparr>in_directory := x\<rparr>)"

definition failed_msg :: "path \<Rightarrow> string \<Rightarrow> string" where
  "failed_msg file e = ''Failed file: '' @ file @ '' -- '' @ e"

text \<open>
  The loop of the break-on-fail branch over \<^verbatim>\<open>self.data.items()\<close>. \<open>dn\<close> is
  \<^verbatim>\<open>self.data[file]['dir_name']\<close>, which the loop does not change, and \<open>uerr\<close> is
  \<^verbatim>\<open>updinfo['error']\<close>, read only when a dictionary is cancelled.
\<close>

fun cascade :: "path \<Rightarrow> path option \<Rightarrow> string option \<Rightarrow> data \<Rightarrow> failed \<Rightarrow> exn + (data \<times> failed)" where
  "cascade file dn uerr [] fl = Inr ([], fl)"
| "cascade file dn uerr ((p, info) # rest) fl =
     (if dir_name info = dn \<and> \<not> in_progress (upload info) \<and> \<not> finished (upload info)
      then (case uerr of
              None \<Rightarrow> Inl (KeyError ''error'')
            | Some e \<Rightarrow>
                (case failed_put fl (dir_name info) (File p) (Err (failed_msg file e)) of
                   Inl x \<Rightarrow> Inl x
                 | Inr fl' \<Rightarrow>
                     (case cascade file dn uerr rest fl' of
                        Inl x \<Rightarrow> Inl x
                      | Inr (rest', fl'') \<Rightarrow>
                          Inr ((p, info\<lparr>proceed := False, error := failed_msg file e\<rparr>) # rest', fl''))))
      else (case cascade file dn uerr rest fl of
              Inl x \<Rightarrow> Inl x
            | Inr (rest', fl') \<Rightarrow> Inr ((p, info) # rest', fl')))"

text \<open>The last three statements of the cancelling branch: this file only.\<close>

definition cancel_file :: "data \<Rightarrow> failed \<Rightarrow> path \<Rightarrow> string \<Rightarrow> data \<times> failed" where
  "cancel_file d fl file e =
     (update_entry file (\<lambda>i. i\<lparr>proceed := False, error := e\<rparr>) d,
      assign (Some file) [(Field ''error'', Text e)] fl)"

text \<open>
  \<^verbatim>\<open>update_delivery(self, file, updinfo)\<close> on the pair of \<^verbatim>\<open>self.data\<close> and
  \<^verbatim>\<open>self.failed\<close>.
\<close>

definition update_delivery :: "options \<Rightarrow> data \<times> failed \<Rightarrow> path \<Rightarrow> updinfo \<Rightarrow> exn + (data \<times> failed)" where
  "update_delivery self s file upd =
     (case s of (d, fl) \<Rightarrow>
        (case u_proceed upd of
           None \<Rightarrow> Inl (KeyError ''proceed'')
         | Some True \<Rightarrow>
             (case map_of d file of
                None \<Rightarrow> Inl (KeyError file)
              | Some info \<Rightarrow> Inr (update_entry file (dict_update upd) d, fl))
         | Some False \<Rightarrow>
             (case map_of d file of
                None \<Rightarrow> Inl (KeyError file)
              | Some info \<Rightarrow>
                  if in_directory info then
                    let dn = dir_name info;
                        fl1 = (if map_of fl dn = None then fl @ [(dn, [])] else fl)
                    in if break_on_fail self then cascade file dn (u_error upd) d fl1
                       else (case u_error upd of
                               None \<Rightarrow> Inl (KeyError ''error'')
                             | Some e \<Rightarrow>
                                 (case failed_put fl1 dn (File file) (Err e) of
                                    Inl x \<Rightarrow> Inl x
                                  | Inr fl2 \<Rightarrow> Inr (cancel_file d fl2 file e)))
                  else (case u_error upd of
                          None \<Rightarrow> Inl (KeyError ''error'')
                        | Some e \<Rightarrow> Inr (cancel_file d fl file e)))))"
subsection \<open>Teardown: \<^verbatim>\<open>_finalize\<close>, \<^verbatim>\<open>_clear_tempdir\<close> and \<^verbatim>\<open>__exit__\<close>\<close>

text \<open>
  What the logger receives: a level and a message. \<^verbatim>\<open>LOGGER.exception\<close> logs at
  level \<open>ERROR\<close>. The two summary tables are kept as their rows.
\<close>

datatype level = INFO | WARNING | ERROR | CRITICAL

datatype message = Msg string | Uploaded "(string \<times> string) list" | NotUploaded "(string \<times> string) list"

type_synonym log = "(level \<times> message) list"

text \<open>
  The two stores at teardown: the keys of the bucket, the keys registered for the
  project, and what goes wrong in them: \<open>delete_item_error\<close> gives the message of
  the \<^verbatim>\<open>ClientError\<close> that deleting a key raises, \<open>db_error\<close> the message of the
  \<^verbatim>\<open>CouchDBException\<close> that reading the project raises.
\<close>

record remote =
  objects :: "string set"
  registered :: "string set"
  delete_item_error :: "string \<Rightarrow> string option"
  db_error :: "string option"

text \<open>
  Modelled from the spec: \<^verbatim>\<open>S3Connector.delete_item\<close>, whose module is not among the
  sources. Section 6 gives the object store the operation \<^verbatim>\<open>delete(bucket, key)\<close>;
  the call removes the key or raises the \<^verbatim>\<open>ClientError\<close> that \<^verbatim>\<open>_finalize\<close>
  catches.
\<close>

definition delete_item :: "remote \<Rightarrow> string \<Rightarrow> exn + remote" where
  "delete_item r key =
     (case delete_item_error r key of
        Some e \<Rightarrow> Inl (ClientError e)
      | None \<Rightarrow> Inr (r\<lparr>objects := objects r - {key}\<rparr>))"

text \<open>
  Modelled from the spec: \<^verbatim>\<open>DatabaseConnector\<close>, whose module is not among the
  sources. \<^verbatim>\<open>prdb[self.project_id]\<close> is the operation \<^verbatim>\<open>project(id)\<close> of section 6:
  it raises \<^verbatim>\<open>CouchDBException\<close> or fetches the project, of which the key set of
  the \<^verbatim>\<open>'files'\<close> dictionary is kept.
\<close>

definition get_project :: "remote \<Rightarrow> exn + string set" where
  "get_project r =
     (case db_error r of
        Some e \<Rightarrow> Inl (CouchDBException e)
      | None \<Rightarrow> Inr (registered r))"

text \<open>
  \<^verbatim>\<open>del proj['files'][key]\<close> on the fetched project: the key leaves the fetched
  dictionary, and \<^verbatim>\<open>KeyError\<close> is raised when it is not there. The source never
  writes the fetched project back, so the metadata store is not an argument.
\<close>

definition del_file :: "string set \<Rightarrow> string \<Rightarrow> exn + string set" where
  "del_file files key =
     (if key \<in> files then Inr (files - {key}) else Inl (KeyError key))"

text \<open>
  \<^verbatim>\<open>_finalize(self, file, info)\<close> returns a flag, with the stores and the log it
  leaves. The first block catches \<^verbatim>\<open>ClientError\<close> only, the second
  \<^verbatim>\<open>CouchDBException\<close> only; the project is fetched in every case, and the
  fetched dictionary is dropped when the method returns.
\<close>

definition finalize :: "remote \<Rightarrow> log \<Rightarrow> path \<Rightarrow> file_info \<Rightarrow> exn + (bool \<times> remote \<times> log)" where
  "finalize r lg file info =
     (case (if finished (upload info) \<and> \<not> finished (database info)
            then delete_item r (new_file info) else Inr r) of
        Inl (ClientError e) \<Rightarrow> Inr (False, r, lg @ [(WARNING, Msg e)])
      | Inl x \<Rightarrow> Inl x
      | Inr r1 \<Rightarrow>
          (case get_project r1 of
             Inl (CouchDBException e) \<Rightarrow> Inr (False, r1, lg @ [(WARNING, Msg e)])
           | Inl x \<Rightarrow> Inl x
           | Inr files \<Rightarrow>
               if finished (database info) \<and> \<not> finished (upload info)
               then (case del_file files (new_file info) of
                       Inl (CouchDBException e) \<Rightarrow> Inr (False, r1, lg @ [(WARNING, Msg e)])
                     | Inl x \<Rightarrow> Inl x
                     | Inr files' \<Rightarrow> Inr (True, r1, lg))
               else Inr (True, r1, lg)))"

text \<open>
  \<^verbatim>\<open>_clear_tempdir(self)\<close> over the directories found in the temporary folder.
  \<open>rmtree d\<close> is what \<^verbatim>\<open>shutil.rmtree(d)\<close> raises, \<open>None\<close> when it succeeds. The
  handler names \<^verbatim>\<open>DeliverySystemException\<close>; any other exception leaves the loop.
  The result lists the directories on which \<^verbatim>\<open>rmtree\<close> was called, the log, and
  the exception that left the loop, if any.
\<close>

fun clear_tempdir :: "(path \<Rightarrow> exn option) \<Rightarrow> path list \<Rightarrow> path list \<Rightarrow> log \<Rightarrow> path list \<times> log \<times> exn option" where
  "clear_tempdir rmtree [] tried lg = (tried, lg, None)"
| "clear_tempdir rmtree (d # ds) tried lg =
     (case rmtree d of
        None \<Rightarrow> clear_tempdir rmtree ds (tried @ [d]) lg
      | Some (DeliverySystemException e) \<Rightarrow>
          clear_tempdir rmtree ds (tried @ [d])
            (lg @ [(ERROR, Msg (''Failed emptying the temporary folder '' @ d @ '': '' @ e))])
      | Some x \<Rightarrow> (tried @ [d], lg, Some x))"










subsection \<open>Session setup: \<^verbatim>\<open>get_dir_info\<close> and \<^verbatim>\<open>_data_to_deliver\<close>\<close>

text \<open>
  What the filesystem answers for the paths the user entered: \<^verbatim>\<open>Path(d).exists()\<close>,
  \<^verbatim>\<open>str(Path(d).resolve())\<close>, \<^verbatim>\<open>is_dir()\<close>, \<^verbatim>\<open>is_file()\<close>, the paths listed by
  \<^verbatim>\<open>folder.glob('**/*')\<close>, and for a path its \<^verbatim>\<open>name\<close>, \<^verbatim>\<open>suffixes\<close> and size.
\<close>

record filesystem =
  fs_exists :: "string \<Rightarrow> bool"
  fs_resolve :: "string \<Rightarrow> path"
  fs_is_dir :: "path \<Rightarrow> bool"
  fs_is_file :: "path \<Rightarrow> bool"
  fs_glob :: "path \<Rightarrow> path list"
  fs_name :: "path \<Rightarrow> string"
  fs_suffixes :: "path \<Rightarrow> string list"
  fs_size :: "path \<Rightarrow> nat"

definition the_file :: "filesystem \<Rightarrow> path \<Rightarrow> source_file" where
  "the_file fs p = \<lparr>f_path = p, f_name = fs_name fs p, f_suffixes = fs_suffixes fs p, st_size = fs_size fs p\<rparr>"

text \<open>
  The keys of \<^verbatim>\<open>all_files\<close> are the strings the user entered (in a get session) or
  resolved paths (in a put session); a string and a path are never equal as keys.
  The values are the empty dictionary or the dictionary of an accepted file.
\<close>

datatype dkey = Str string | Path path

datatype entry = Empty | Info file_info

definition rejected_dict :: "string \<Rightarrow> fdict" where
  "rejected_dict e = [(Field ''proceed'', Flag False), (Field ''error'', Text e)]"

text \<open>\<^verbatim>\<open>target.update(other)\<close> on dictionaries.\<close>

fun dict_merge :: "('k \<times> 'v) list \<Rightarrow> ('k \<times> 'v) list \<Rightarrow> ('k \<times> 'v) list" where
  "dict_merge [] target = target"
| "dict_merge ((k, v) # other) target = dict_merge other (assign k v target)"

text \<open>
  The loop of \<^verbatim>\<open>get_dir_info(self, folder)\<close> over the paths under the folder. The
  third component lists the files handed to \<^verbatim>\<open>get_file_info\<close>, each of which
  reads the header of the file and both stores.
\<close>

fun get_dir_info ::
  "options \<Rightarrow> stores \<Rightarrow> filesystem \<Rightarrow> path \<Rightarrow> path list \<Rightarrow>
   (path \<times> file_info) list \<times> failed \<times> path list \<Rightarrow> (path \<times> file_info) list \<times> failed \<times> path list" where
  "get_dir_info self st fs folder [] acc = acc"
| "get_dir_info self st fs folder (f # rest) (dir_info, dir_fail, classified) =
     (if fs_is_file fs f \<and> \<not> sublist ''DS_Store'' f
      then (case get_file_info self st (the_file fs f) True folder (fs_name fs folder) of
              Rejected e \<Rightarrow>
                get_dir_info self st fs folder rest
                  (dir_info, assign (Some f) (rejected_dict e) dir_fail, classified @ [f])
            | Accepted i \<Rightarrow>
                get_dir_info self st fs folder rest
                  (assign f i dir_info, dir_fail, classified @ [f]))
      else get_dir_info self st fs folder rest (dir_info, dir_fail, classified))"

definition dup_msg :: "string \<Rightarrow> string" where
  "dup_msg d = ''The path to file '' @ d @ '' is listed multiple times, please remove path dublicates.''"

definition missing_msg :: "string \<Rightarrow> string" where
  "missing_msg d = ''Trying to deliver a non-existing file/folder: '' @ d @ '' -- Delivery not possible.''"

text \<open>
  The loop of \<^verbatim>\<open>_data_to_deliver\<close> over \<^verbatim>\<open>data_list\<close>, on \<^verbatim>\<open>all_files\<close>,
  \<^verbatim>\<open>initial_fail\<close> and the list of files classified so far. The result keeps that
  list also when the loop raises.
\<close>

fun deliver_loop ::
  "options \<Rightarrow> stores \<Rightarrow> filesystem \<Rightarrow> string \<Rightarrow> string list \<Rightarrow>
   (dkey \<times> entry) list \<times> failed \<times> path list \<Rightarrow>
   path list \<times> (exn + ((dkey \<times> entry) list \<times> failed))" where
  "deliver_loop self st fs m [] (all_files, initial_fail, classified) =
     (classified, Inr (all_files, initial_fail))"
| "deliver_loop self st fs m (d # ds) (all_files, initial_fail, classified) =
     (if map_of all_files (Str d) \<noteq> None \<or> map_of all_files (Path (fs_resolve fs d)) \<noteq> None
      then (classified, Inl (DeliveryOptionException (dup_msg d)))
      else if m = ''get''
      then deliver_loop self st fs m ds (assign (Str d) Empty all_files, initial_fail, classified)
      else if m = ''put''
      then if \<not> fs_exists fs d then (classified, Inl (OSError (missing_msg d)))
           else if fs_is_dir fs (fs_resolve fs d)
           then (case get_dir_info self st fs (fs_resolve fs d) (fs_glob fs (fs_resolve fs d))
                        ([], [], classified) of
                   (dir_info, dir_fail, classified') \<Rightarrow>
                     deliver_loop self st fs m ds
                       (dict_merge (map (\<lambda>(p, i). (Path p, Info i)) dir_info) all_files,
                        dict_merge dir_fail initial_fail, classified'))
           else (case get_file_info self st (the_file fs (fs_resolve fs d)) False ''.'' [] of
                   Rejected e \<Rightarrow>
                     deliver_loop self st fs m ds
                       (all_files, assign (Some (fs_resolve fs d)) (rejected_dict e) initial_fail,
                        classified @ [fs_resolve fs d])
                 | Accepted i \<Rightarrow>
                     deliver_loop self st fs m ds
                       (assign (Path (fs_resolve fs d)) (Info i) all_files, initial_fail,
                        classified @ [fs_resolve fs d]))
      else deliver_loop self st fs m ds (all_files, initial_fail, classified))"

text \<open>\<^verbatim>\<open>line.strip()\<close>: white space is removed at both ends.\<close>

definition is_space :: "char \<Rightarrow> bool" where
  "is_space c = (c \<in> {CHR '' '', CHR 0x09, CHR 0x0A, CHR 0x0B, CHR 0x0C, CHR 0x0D,
                       CHR 0x1C, CHR 0x1D, CHR 0x1E, CHR 0x1F})"

definition strip :: "string \<Rightarrow> string" where
  "strip s = rev (dropWhile is_space (rev (dropWhile is_space s)))"

text \<open>
  \<^verbatim>\<open>_data_to_deliver(self, data, pathfile)\<close>. \<open>m\<close> is \<^verbatim>\<open>self.method\<close>, and
  \<open>pathfile_lines\<close> holds the lines of the path file when one was given and
  exists. The message of the method check is not an f-string in the source.
\<close>

definition data_list_of :: "string list \<Rightarrow> string list option \<Rightarrow> string list" where
  "data_list_of data_arg pathfile_lines =
     data_arg @ (case pathfile_lines of None \<Rightarrow> [] | Some ls \<Rightarrow> map strip ls)"

definition data_to_deliver ::
  "options \<Rightarrow> stores \<Rightarrow> filesystem \<Rightarrow> string \<Rightarrow> string list \<Rightarrow> string list option \<Rightarrow>
   path list \<times> (exn + ((dkey \<times> entry) list \<times> failed))" where
  "data_to_deliver self st fs m data_arg pathfile_lines =
     (if m \<noteq> ''get'' \<and> m \<noteq> ''put''
      then ([], Inl (DeliveryOptionException
                      ''Delivery option {self.method} not allowed. Cancelling delivery.''))
      else deliver_loop self st fs m (data_list_of data_arg pathfile_lines) ([], [], []))"

subsection \<open>Download: \<^verbatim>\<open>get\<close>\<close>

text \<open>
  The local destination is a map from paths to what is there: a folder, or a
  regular file with its contents. The root and the current directory always
  exist. Paths are normalised strings, as \<^verbatim>\<open>pathlib\<close> prints them.
\<close>

datatype node = Folder | Regular string

type_synonym local_fs = "path \<Rightarrow> node option"

definition path_exists :: "local_fs \<Rightarrow> path \<Rightarrow> bool" where
  "path_exists fs p = (p = ''/'' \<or> p = ''.'' \<or> fs p \<noteq> None)"

fun is_regular :: "node option \<Rightarrow> bool" where
  "is_regular (Some (Regular c)) = True"
| "is_regular _ = False"

text \<open>The proper ancestors of a path below its root, outermost first, and \<^verbatim>\<open>path.parent\<close>.\<close>

definition ancestors :: "path \<Rightarrow> path list" where
  "ancestors p = map (\<lambda>n. take n p) (filter (\<lambda>n. p ! n = CHR ''/'') [1..<length p])"

definition parent :: "path \<Rightarrow> path" where
  "parent p =
     (case rev (ancestors p) of
        a # _ \<Rightarrow> a
      | [] \<Rightarrow> (if p \<noteq> [] \<and> hd p = CHR ''/'' then ''/'' else ''.''))"

text \<open>
  \<^verbatim>\<open>self.tempdir[1] / Path(file.key)\<close>: an absolute key replaces the folder, an
  empty one adds nothing.
\<close>

definition local_path :: "path \<Rightarrow> string \<Rightarrow> path" where
  "local_path tmp key =
     (if key = [] then tmp
      else if hd key = CHR ''/'' then key
      else path_join tmp key)"

text \<open>
  The bucket as \<^verbatim>\<open>get\<close> sees it. \<open>download key\<close> is the contents that
  \<^verbatim>\<open>download_file\<close> fetches or the exception it raises, and \<open>mkdir_error\<close> the
  message of an \<^verbatim>\<open>OSError\<close> that the operating system raises for a folder.
\<close>

record bucket_env =
  bucket_exists :: bool
  bucket_name :: string
  files_in_bucket :: "string \<Rightarrow> string list"
  download :: "string \<Rightarrow> exn + string"
  mkdir_error :: "path \<Rightarrow> string option"
  tempdir :: path

text \<open>Folders are created where nothing is, in the order given.\<close>

fun make_folders :: "path list \<Rightarrow> local_fs \<Rightarrow> local_fs" where
  "make_folders [] fs = fs"
| "make_folders (a # rest) fs = make_folders rest (if fs a = None then fs(a \<mapsto> Folder) else fs)"

text \<open>
  \<^verbatim>\<open>path.mkdir(parents=True)\<close>: the folder and its missing ancestors are created.
  It raises \<^verbatim>\<open>OSError\<close> when an ancestor is a regular file, when the path is
  there already, and when the operating system refuses.
\<close>

definition mkdir_parents :: "bucket_env \<Rightarrow> local_fs \<Rightarrow> path \<Rightarrow> exn + local_fs" where
  "mkdir_parents env fs p =
     (if \<exists>a \<in> set (ancestors p). is_regular (fs a) then Inl (OSError ''Not a directory'')
      else if fs p \<noteq> None then Inl (OSError ''File exists'')
      else (case mkdir_error env p of
              Some e \<Rightarrow> Inl (OSError e)
            | None \<Rightarrow> Inr (make_folders (ancestors p @ [p]) fs)))"

text \<open>
  \<^verbatim>\<open>download_file(bucket, key, str(new_path))\<close>: the contents are written to the
  new path, which fails when the path's parent is a regular file.
\<close>

definition download_to :: "bucket_env \<Rightarrow> local_fs \<Rightarrow> string \<Rightarrow> path \<Rightarrow> exn + local_fs" where
  "download_to env fs key np =
     (case download env key of
        Inl e \<Rightarrow> Inl e
      | Inr contents \<Rightarrow>
          if is_regular (fs (parent np)) then Inl (OSError ''Not a directory'')
          else Inr (fs(np \<mapsto> Regular contents)))"

text \<open>
  \<^verbatim>\<open>self.data\<close> of a get session: for each requested path, the downloads recorded
  under it.
\<close>

datatype download_status = Downloaded | Download_failed exn

type_synonym get_data = "(string \<times> (path \<times> download_status) list) list"

definition set_download :: "get_data \<Rightarrow> string \<Rightarrow> path \<Rightarrow> download_status \<Rightarrow> exn + get_data" where
  "set_download d path np v =
     (case map_of d path of
        None \<Rightarrow> Inl (KeyError path)
      | Some m \<Rightarrow> Inr (assign path (assign np v m) d))"

record get_state =
  local :: local_fs
  g_data :: get_data
  printed :: "string list"

definition mkdir_msg :: "path \<Rightarrow> string \<Rightarrow> string" where
  "mkdir_msg p e =
     ''Could not create folder '' @ p @ ''. Cannot'' @ ''proceed with delivery. Cancelling: '' @ e"

definition exists_msg :: "path \<Rightarrow> string" where
  "exists_msg np = ''File '' @ np @ '' already exists. Not downloading.''"

text \<open>
  The body of the loop of \<^verbatim>\<open>get\<close> for one key. \<^verbatim>\<open>except Exception\<close> catches every
  exception of the download but \<^verbatim>\<open>SystemExit\<close>.
\<close>

definition get_step :: "bucket_env \<Rightarrow> string \<Rightarrow> get_state \<Rightarrow> string \<Rightarrow> exn + get_state" where
  "get_step env path s key =
     (let new_path = local_path (tempdir env) key
      in case (if \<not> path_exists (local s) (parent new_path)
               then mkdir_parents env (local s) (parent new_path) else Inr (local s)) of
           Inl (OSError e) \<Rightarrow> Inl (SystemExit (mkdir_msg (parent new_path) e))
         | Inl x \<Rightarrow> Inl x
         | Inr fs1 \<Rightarrow>
             if \<not> path_exists fs1 new_path
             then (case download_to env fs1 key new_path of
                     Inl (SystemExit m) \<Rightarrow> Inl (SystemExit m)
                   | Inl e \<Rightarrow>
                       (case set_download (g_data s) path new_path (Download_failed e) of
                          Inl x \<Rightarrow> Inl x
                        | Inr d \<Rightarrow> Inr (s\<lparr>local := fs1, g_data := d\<rparr>))
                   | Inr fs2 \<Rightarrow>
                       (case set_download (g_data s) path new_path Downloaded of
                          Inl x \<Rightarrow> Inl x
                        | Inr d \<Rightarrow> Inr (s\<lparr>local := fs2, g_data := d\<rparr>)))
             else Inr (s\<lparr>local := fs1, printed := printed s @ [exists_msg new_path]\<rparr>))"

fun get_loop :: "bucket_env \<Rightarrow> string \<Rightarrow> string list \<Rightarrow> get_state \<Rightarrow> exn + get_state" where
  "get_loop env path [] s = Inr s"
| "get_loop env path (key # keys) s =
     (case get_step env path s key of
        Inl x \<Rightarrow> Inl x
      | Inr s' \<Rightarrow> get_loop env path keys s')"

text \<open>\<^verbatim>\<open>get(self, path)\<close>, which returns the pair of \<^verbatim>\<open>True\<close> and the path.\<close>

definition get :: "bucket_env \<Rightarrow> get_state \<Rightarrow> string \<Rightarrow> exn + ((bool \<times> string) \<times> get_state)" where
  "get env s path =
     (if bucket_exists env
      then (case get_loop env path (files_in_bucket env path) s of
              Inl x \<Rightarrow> Inl x
            | Inr s' \<Rightarrow> Inr ((True, path), s'))
      else Inl (S3Error (''Bucket '' @ bucket_name env @ '' does not exist.'')))"

subsection \<open>The existence table of the specification\<close>

text \<open>
  The table of section 4.4 of the specification, row by row: the arguments are
  membership in the metadata store, membership in the object store and the
  overwrite flag, the value says whether delivery proceeds.
\<close>

fun existence_matrix :: "bool \<Rightarrow> bool \<Rightarrow> bool \<Rightarrow> bool" where
  "existence_matrix False False ow = True"
| "existence_matrix True False ow = ow"
| "existence_matrix False True ow = False"
| "existence_matrix True True ow = ow"

text \<open>
  The target key that \<^verbatim>\<open>get_file_info\<close> computes for a file, and the one
  \<^verbatim>\<open>do_file_checks\<close> computes from the directory path it is given.
\<close>

definition target_key :: "stores \<Rightarrow> source_file \<Rightarrow> bool \<Rightarrow> string \<Rightarrow> string" where
  "target_key st file in_dir dbase =
     bucketfilename (get_root_path st (f_path file) (if in_dir then Some dbase else None))
       (f_name file) (fst (is_compressed st (f_path file)))"

definition checked_key :: "stores \<Rightarrow> source_file \<Rightarrow> path \<Rightarrow> string" where
  "checked_key st file dpath =
     bucketfilename dpath (f_name file) (fst (is_compressed st (f_path file)))"

subsection \<open>Sample inputs and auxiliary notions\<close>

definition ex_file :: source_file where
  "ex_file = \<lparr>f_path = ''/data/a.txt'', f_name = ''a.txt'', f_suffixes = [''.txt''], st_size = 3\<rparr>"

definition ex_archive :: source_file where
  "ex_archive = \<lparr>f_path = ''/data/b.gz'', f_name = ''b.gz'', f_suffixes = [''.gz''], st_size = 9\<rparr>"

text \<open>
  Stores in which the header check finds exactly \<^verbatim>\<open>/data/b.gz\<close> compressed, the
  root path is empty, and the two key sets are given.
\<close>

definition ex_stores :: "string set \<Rightarrow> string set \<Rightarrow> stores" where
  "ex_stores db bucket =
     \<lparr>is_compressed = (\<lambda>p. (p = ''/data/b.gz'', [])),
      get_root_path = (\<lambda>p b. ''.''),
      project_files = db,
      file_exists_in_bucket = (\<lambda>k. (k \<in> bucket, []))\<rparr>"

definition ex_overwrite :: options where
  "ex_overwrite = \<lparr>break_on_fail = True, overwrite = True\<rparr>"

definition ex_archive_info :: file_info where
  "ex_archive_info =
     \<lparr>in_directory = False, dir_name = None, path_base = None, directory_path = ''.'',
      size_info = 9, file_suffixes = [''.gz''], proceed = True, compressed = True,
      new_file = ''b.gz.ccp'', error = [], encrypted_file = [], encrypted_size = 0,
      processing = \<lparr>in_progress = False, finished = False\<rparr>,
      upload = \<lparr>in_progress = False, finished = False\<rparr>,
      database = \<lparr>in_progress = False, finished = False\<rparr>\<rparr>"


text \<open>
  A group of three files of the directory \<^verbatim>\<open>/d\<close> and one file outside it. The
  upload stage of the third file is a parameter; every processing stage is
  finished.
\<close>

definition ex_info :: "path option \<Rightarrow> string \<Rightarrow> stage \<Rightarrow> file_info" where
  "ex_info dn key up =
     \<lparr>in_directory = (dn \<noteq> None), dir_name = dn, path_base = None, directory_path = ''.'',
      size_info = 1, file_suffixes = [], proceed = True, compressed = False,
      new_file = key, error = [], encrypted_file = [], encrypted_size = 0,
      processing = \<lparr>in_progress = False, finished = True\<rparr>,
      upload = up,
      database = \<lparr>in_progress = False, finished = False\<rparr>\<rparr>"

definition st_idle :: stage where "st_idle = \<lparr>in_progress = False, finished = False\<rparr>"
definition st_busy :: stage where "st_busy = \<lparr>in_progress = True, finished = False\<rparr>"
definition st_done :: stage where "st_done = \<lparr>in_progress = False, finished = True\<rparr>"

definition ex_group :: "stage \<Rightarrow> data" where
  "ex_group up =
     [(''/d/a'', ex_info (Some ''/d'') ''d/a.zst.ccp'' st_idle),
      (''/d/b'', ex_info (Some ''/d'') ''d/b.zst.ccp'' st_idle),
      (''/d/c'', ex_info (Some ''/d'') ''d/c.zst.ccp'' up),
      (''/e'', ex_info None ''e.zst.ccp'' st_idle)]"

definition ex_reject :: updinfo where
  "ex_reject =
     \<lparr>u_in_directory = None, u_dir_name = None, u_path_base = None, u_directory_path = None,
      u_size = None, u_suffixes = None, u_proceed = Some False, u_compressed = None,
      u_new_file = None, u_error = Some ''boom'', u_encrypted_file = None,
      u_encrypted_size = None, u_processing = None, u_upload = None, u_database = None\<rparr>"

text \<open>
  What break-on-fail does to a dictionary when \<open>file\<close> of the directory \<open>dn\<close>
  fails with the error \<open>e\<close>: it is cancelled when it belongs to \<open>dn\<close> and its
  upload has neither started nor finished, and kept otherwise.
\<close>

definition cancelled_by :: "path \<Rightarrow> string \<Rightarrow> path option \<Rightarrow> file_info \<Rightarrow> file_info" where
  "cancelled_by file e dn i =
     (if dir_name i = dn \<and> \<not> in_progress (upload i) \<and> \<not> finished (upload i)
      then i\<lparr>proceed := False, error := failed_msg file e\<rparr> else i)"

definition ex_break :: options where "ex_break = \<lparr>break_on_fail = True, overwrite = False\<rparr>"
definition ex_nobreak :: options where "ex_nobreak = \<lparr>break_on_fail = False, overwrite = False\<rparr>"

text \<open>
  A file outside any directory with the key \<^verbatim>\<open>e.zst.ccp\<close>; its three stages and
  its \<^verbatim>\<open>proceed\<close> flag are parameters.
\<close>

definition ex_rec :: "bool \<Rightarrow> stage \<Rightarrow> stage \<Rightarrow> stage \<Rightarrow> file_info" where
  "ex_rec go pr up db =
     \<lparr>in_directory = False, dir_name = None, path_base = None, directory_path = ''.'',
      size_info = 1, file_suffixes = [], proceed = go, compressed = False,
      new_file = ''e.zst.ccp'', error = ''failed'', encrypted_file = [], encrypted_size = 0,
      processing = pr, upload = up, database = db\<rparr>"

text \<open>Stores that hold the key in both places; deletion in the bucket may fail.\<close>

definition ex_remote :: "string option \<Rightarrow> string option \<Rightarrow> remote" where
  "ex_remote s3_err db_err =
     \<lparr>objects = {''e.zst.ccp''}, registered = {''e.zst.ccp''},
      delete_item_error = (\<lambda>k. s3_err), db_error = db_err\<rparr>"

text \<open>Stores that hold nothing.\<close>

definition ex_unregistered :: remote where
  "ex_unregistered =
     \<lparr>objects = {}, registered = {}, delete_item_error = (\<lambda>k. None), db_error = None\<rparr>"

definition ex_rmtree :: "path \<Rightarrow> exn option" where
  "ex_rmtree d = (if d = ''/tmp/a'' then Some (OSError ''Permission denied'') else None)"



text \<open>
  A filesystem in which every entered name exists as a regular file of the
  directory \<^verbatim>\<open>/data\<close>.
\<close>

definition ex_fs :: filesystem where
  "ex_fs =
     \<lparr>fs_exists = (\<lambda>d. True), fs_resolve = (\<lambda>d. ''/data/'' @ d), fs_is_dir = (\<lambda>p. False),
      fs_is_file = (\<lambda>p. True), fs_glob = (\<lambda>p. []), fs_name = (\<lambda>p. drop 6 p),
      fs_suffixes = (\<lambda>p. []), fs_size = (\<lambda>p. 3)\<rparr>"

text \<open>
  One local state extends another for a requested path when every path that was
  there keeps its node and the requested path stays a key of the recorded
  downloads.
\<close>

definition extends :: "string \<Rightarrow> get_state \<Rightarrow> get_state \<Rightarrow> bool" where
  "extends path s s' =
     ((\<forall>q. local s q \<noteq> None \<longrightarrow> local s' q = local s q) \<and>
      (map_of (g_data s) path \<noteq> None \<longrightarrow> map_of (g_data s') path \<noteq> None) \<and>
      set (printed s) \<subseteq> set (printed s'))"

text \<open>
  A key is settled in a state when the step of the loop for it changes nothing in
  the local destination: the parent folder is there, and the file is there or its
  download fails.
\<close>

definition settled :: "bucket_env \<Rightarrow> string \<Rightarrow> get_state \<Rightarrow> string \<Rightarrow> bool" where
  "settled env path s key =
     (let np = local_path (tempdir env) key
      in path_exists (local s) (parent np) \<and>
         (path_exists (local s) np \<or>
          ((case download_to env (local s) key np of
              Inl (SystemExit m) \<Rightarrow> False | Inl e \<Rightarrow> True | Inr fs2 \<Rightarrow> False) \<and>
           map_of (g_data s) path \<noteq> None)))"

text \<open>
  A bucket with two objects under \<^verbatim>\<open>d\<close>, and a local destination that holds the
  first of them already.
\<close>

definition ex_bucket :: bucket_env where
  "ex_bucket =
     \<lparr>bucket_exists = True, bucket_name = ''project_1'',
      files_in_bucket = (\<lambda>p. [''d/a.ccp'', ''d/b.ccp'']),
      download = (\<lambda>k. Inr ''new''),
      mkdir_error = (\<lambda>p. None),
      tempdir = ''/tmp''\<rparr>"

definition ex_local :: local_fs where
  "ex_local = [''/tmp'' \<mapsto> Folder, ''/tmp/d'' \<mapsto> Folder, ''/tmp/d/a.ccp'' \<mapsto> Regular ''old'']"

definition ex_before :: get_state where
  "ex_before = \<lparr>local = ex_local, g_data = [(''d'', [])], printed = []\<rparr>"

definition ex_after :: get_state where
  "ex_after =
     \<lparr>local = ex_local(''/tmp/d/b.ccp'' \<mapsto> Regular ''new''),
      g_data = [(''d'', [(''/tmp/d/b.ccp'', Downloaded)])],
      printed = [exists_msg ''/tmp/d/a.ccp'']\<rparr>"

text \<open>
  A filesystem with the directory \<^verbatim>\<open>/data/d\<close> and its three files \<^verbatim>\<open>a\<close>,
  \<^verbatim>\<open>b\<close> and \<^verbatim>\<open>c\<close>.
\<close>

definition ex_dir_fs :: filesystem where
  "ex_dir_fs =
     \<lparr>fs_exists = (\<lambda>d. True), fs_resolve = (\<lambda>d. ''/data/'' @ d),
      fs_is_dir = (\<lambda>p. p = ''/data/d''), fs_is_file = (\<lambda>p. p \<noteq> ''/data/d''),
      fs_glob = (\<lambda>p. [''/data/d/a'', ''/data/d/b'', ''/data/d/c'']),
      fs_name = (\<lambda>p. if p = ''/data/d'' then ''d'' else drop 8 p),
      fs_suffixes = (\<lambda>p. []), fs_size = (\<lambda>p. 1)\<rparr>"

text \<open>The dictionary of a file of that directory as setup accepts it.\<close>

definition ex_dir_info :: "string \<Rightarrow> file_info" where
  "ex_dir_info name =
     \<lparr>in_directory = True, dir_name = Some ''/data/d'', path_base = Some ''d'',
      directory_path = ''.'', size_info = 1, file_suffixes = [], proceed = True,
      compressed = False, new_file = name @ ''.zst.ccp'', error = [], encrypted_file = [],
      encrypted_size = 0,
      processing = \<lparr>in_progress = False, finished = False\<rparr>,
      upload = \<lparr>in_progress = False, finished = False\<rparr>,
      database = \<lparr>in_progress = False, finished = False\<rparr>\<rparr>"



section \<open>Properties\<close>

subsection \<open>Classification\<close>

lemma path_join_suffix: "suffix s n \<Longrightarrow> suffix s (path_join d n)"
  by (auto simp: path_join_def suffix_def)

lemma proc_suff_cases: "proc_suff c = (if c then ''.ccp'' else ''.zst.ccp'')"
  by (simp add: proc_suff_def)

lemma bucketfilename_suffix: "suffix (proc_suff c) (bucketfilename d n c)"
  unfolding bucketfilename_def by (rule path_join_suffix) (simp add: suffix_def)

lemma get_file_info_Accepted:
  assumes "get_file_info self st file in_dir dname dbase = Accepted i"
  shows "compressed i = fst (is_compressed st (f_path file))"
    and "new_file i = bucketfilename (directory_path i) (f_name file) (compressed i)"
  using assms
  by (auto simp: get_file_info_def Let_def split: prod.splits if_splits)

lemma get_file_info_matrix:
  assumes "snd (is_compressed st (f_path file)) = []"
  shows "proceeds (get_file_info self st file in_dir dname dbase) =
     existence_matrix (target_key st file in_dir dbase \<in> project_files st)
        (fst (file_exists_in_bucket st (target_key st file in_dir dbase))) (overwrite self)"
  using assms
  by (cases "target_key st file in_dir dbase \<in> project_files st";
      cases "fst (file_exists_in_bucket st (target_key st file in_dir dbase))")
     (auto simp: get_file_info_def target_key_def Let_def split: prod.splits if_splits)

lemma get_file_info_diverged:
  assumes "snd (is_compressed st (f_path file)) = []"
    and "target_key st file in_dir dbase \<notin> project_files st"
    and "fst (file_exists_in_bucket st (target_key st file in_dir dbase))"
  shows "get_file_info self st file in_dir dname dbase =
     Rejected (contact_support (snd (file_exists_in_bucket st (target_key st file in_dir dbase)))
                 (f_name file))"
  using assms
  by (auto simp: get_file_info_def target_key_def Let_def split: prod.splits if_splits)

lemma do_file_checks_proceed:
  assumes "snd (is_compressed st (f_path file)) = []"
  shows "fst (do_file_checks self st file dpath) =
     (checked_key st file dpath \<notin> project_files st \<and>
      \<not> fst (file_exists_in_bucket st (checked_key st file dpath)))"
  using assms
  by (auto simp: do_file_checks_def checked_key_def Let_def split: prod.splits if_splits)

lemma do_file_checks_diverged:
  assumes "snd (is_compressed st (f_path file)) = []"
    and "checked_key st file dpath \<notin> project_files st"
    and "fst (file_exists_in_bucket st (checked_key st file dpath))"
  shows "snd (snd (snd (do_file_checks self st file dpath))) =
     contact_support (snd (file_exists_in_bucket st (checked_key st file dpath))) (f_name file)"
  using assms
  by (auto simp: do_file_checks_def checked_key_def Let_def split: prod.splits if_splits)

lemma do_file_checks_key:
  assumes "snd (is_compressed st (f_path file)) = []"
  shows "fst (snd (do_file_checks self st file dpath)) = fst (is_compressed st (f_path file))"
    and "fst (snd (snd (do_file_checks self st file dpath))) = checked_key st file dpath"
  using assms
  by (auto simp: do_file_checks_def checked_key_def Let_def split: prod.splits if_splits)

lemma contact_support_text: "suffix ''contact support.'' (contact_support e n)"
  by (simp add: contact_support_def suffix_def)

lemma ex_key: "bucketfilename ''.'' ''a.txt'' False = ''a.txt.zst.ccp''"
  by (simp add: bucketfilename_def path_join_def proc_suff_def)

lemma ex_key_archive: "bucketfilename ''.'' ''b.gz'' True = ''b.gz.ccp''"
  by (simp add: bucketfilename_def path_join_def proc_suff_def)

text \<open>
  \<^verbatim>\<open>get_file_info\<close> follows the existence table of the specification: when the
  header check reports no error, it proceeds exactly as the table says for the
  four combinations of metadata-store and object-store membership and the
  overwrite flag, and a key found in the object store but not in the metadata
  store is rejected with the text that ends in "contact support.", whatever the
  flag.
\<close>

lemma get_file_info_follows_table:
  assumes "snd (is_compressed st (f_path file)) = []"
  shows "proceeds (get_file_info self st file in_dir dname dbase) =
           existence_matrix (target_key st file in_dir dbase \<in> project_files st)
             (fst (file_exists_in_bucket st (target_key st file in_dir dbase))) (overwrite self)
       \<and> (target_key st file in_dir dbase \<notin> project_files st \<and>
          fst (file_exists_in_bucket st (target_key st file in_dir dbase)) \<longrightarrow>
          (\<exists>e. get_file_info self st file in_dir dname dbase = Rejected e \<and>
               suffix ''contact support.'' e))"
  using get_file_info_matrix [OF assms] get_file_info_diverged [OF assms] contact_support_text
  by simp

text \<open>
  Claim C1 does not hold of the code. \<^verbatim>\<open>do_file_checks\<close> never reads the overwrite
  flag of the session. For a key that is registered in the metadata store and not
  in the object store, with the flag set, the table says proceed and
  \<^verbatim>\<open>get_file_info\<close> proceeds for the same file and stores, but \<^verbatim>\<open>do_file_checks\<close>
  rejects the file as existing in the database.
\<close>

theorem do_file_checks_ignores_overwrite:
  "checked_key (ex_stores {''a.txt.zst.ccp''} {}) ex_file ''.'' \<in> project_files (ex_stores {''a.txt.zst.ccp''} {})
   \<and> \<not> fst (file_exists_in_bucket (ex_stores {''a.txt.zst.ccp''} {})
             (checked_key (ex_stores {''a.txt.zst.ccp''} {}) ex_file ''.''))
   \<and> overwrite ex_overwrite
   \<and> existence_matrix True False (overwrite ex_overwrite)
   \<and> proceeds (get_file_info ex_overwrite (ex_stores {''a.txt.zst.ccp''} {}) ex_file False [] [])
   \<and> do_file_checks ex_overwrite (ex_stores {''a.txt.zst.ccp''} {}) ex_file ''.'' =
        (False, False, ''a.txt.zst.ccp'', already_in_db ''/data/a.txt'')"
  by (simp add: do_file_checks_def get_file_info_def ex_stores_def ex_file_def ex_overwrite_def
      checked_key_def ex_key)

text \<open>
  Claim C4. The target key of a file that \<^verbatim>\<open>get_file_info\<close> accepts is the directory
  path joined with the file name and a suffix: the compression marker followed by
  the encryption marker when the header check says the file is not compressed,
  the encryption marker alone when it says the file is compressed; the record
  carries the header check's answer, so no compression marker is ever added for
  compressed input. \<^verbatim>\<open>do_file_checks\<close> computes the same key.
\<close>

theorem target_key_suffix_policy:
  "(get_file_info self st file in_dir dname dbase = Accepted i \<longrightarrow>
      compressed i = fst (is_compressed st (f_path file)) \<and>
      new_file i = path_join (directory_path i)
                     (f_name file @ (if compressed i then ''.ccp'' else ''.zst.ccp'')) \<and>
      suffix (if compressed i then ''.ccp'' else ''.zst.ccp'') (new_file i))
   \<and> (snd (is_compressed st (f_path file)) = [] \<longrightarrow>
      fst (snd (do_file_checks self st file dpath)) = fst (is_compressed st (f_path file)) \<and>
      fst (snd (snd (do_file_checks self st file dpath))) =
        path_join dpath (f_name file @
          (if fst (is_compressed st (f_path file)) then ''.ccp'' else ''.zst.ccp'')) \<and>
      suffix (if fst (is_compressed st (f_path file)) then ''.ccp'' else ''.zst.ccp'')
        (fst (snd (snd (do_file_checks self st file dpath)))))"
proof (intro conjI impI)
  assume a: "get_file_info self st file in_dir dname dbase = Accepted i"
  show "compressed i = fst (is_compressed st (f_path file))"
    by (rule get_file_info_Accepted(1) [OF a])
  show k: "new_file i = path_join (directory_path i)
                     (f_name file @ (if compressed i then ''.ccp'' else ''.zst.ccp''))"
    using get_file_info_Accepted(2) [OF a]
    by (simp only: bucketfilename_def proc_suff_cases)
  show "suffix (if compressed i then ''.ccp'' else ''.zst.ccp'') (new_file i)"
    using get_file_info_Accepted(2) [OF a] bucketfilename_suffix [of "compressed i"]
    by (simp only: proc_suff_cases)
next
  assume e: "snd (is_compressed st (f_path file)) = []"
  show "fst (snd (do_file_checks self st file dpath)) = fst (is_compressed st (f_path file))"
    by (rule do_file_checks_key(1) [OF e])
  show "fst (snd (snd (do_file_checks self st file dpath))) =
        path_join dpath (f_name file @
          (if fst (is_compressed st (f_path file)) then ''.ccp'' else ''.zst.ccp''))"
    using do_file_checks_key(2) [OF e]
    by (simp only: checked_key_def bucketfilename_def proc_suff_cases)
  show "suffix (if fst (is_compressed st (f_path file)) then ''.ccp'' else ''.zst.ccp'')
        (fst (snd (snd (do_file_checks self st file dpath))))"
    using do_file_checks_key(2) [OF e]
      bucketfilename_suffix [of "fst (is_compressed st (f_path file))"]
    by (simp only: checked_key_def proc_suff_cases)
qed

theorem target_key_suffix_policy_witness:
  "get_file_info ex_overwrite (ex_stores {} {}) ex_archive False [] [] = Accepted ex_archive_info
   \<and> compressed ex_archive_info
   \<and> new_file ex_archive_info = ''b.gz.ccp''
   \<and> suffix ''.ccp'' (new_file ex_archive_info)
   \<and> snd (is_compressed (ex_stores {} {}) (f_path ex_archive)) = []
   \<and> fst (snd (snd (do_file_checks ex_overwrite (ex_stores {} {}) ex_archive ''.''))) = ''b.gz.ccp''
   \<and> suffix ''.ccp'' (fst (snd (snd (do_file_checks ex_overwrite (ex_stores {} {}) ex_archive ''.''))))"
proof -
  have a: "get_file_info ex_overwrite (ex_stores {} {}) ex_archive False [] [] = Accepted ex_archive_info"
    by (simp add: get_file_info_def ex_stores_def ex_archive_def ex_overwrite_def
        ex_archive_info_def ex_key_archive)
  have b: "is_compressed (ex_stores {} {}) (f_path ex_archive) = (True, [])"
    by (simp add: ex_stores_def ex_archive_def)
  have c: "compressed ex_archive_info = True" "directory_path ex_archive_info = ''.''"
    "new_file ex_archive_info = ''b.gz.ccp''"
    by (simp_all add: ex_archive_info_def)
  have d: "f_name ex_archive = ''b.gz''"
    by (simp add: ex_archive_def)
  have e: "suffix ''.ccp'' ''b.gz.ccp''"
    by (simp add: suffix_def)
  show ?thesis
    using a b e
      target_key_suffix_policy [of ex_overwrite "ex_stores {} {}" ex_archive False "[]" "[]"
        ex_archive_info "''.''"]
    by (simp add: c d path_join_def)
qed

subsection \<open>Progress\<close>

lemma map_of_update_entry:
  "map_of (update_entry p f d) q = (if q = p then map_option f (map_of d q) else map_of d q)"
  by (induction d) (auto simp: update_entry_def)

lemma stage_at_set_stage:
  "stage_at k i = Some s0 \<Longrightarrow>
   stage_at k' (set_stage k s i) = (if k' = k then Some s else stage_at k' i)"
  by (auto simp: stage_at_def set_stage_def split: if_splits)

lemma update_stage_Inr:
  assumes "update_stage d item k a b = Inr d'"
  shows "\<exists>i s. map_of d item = Some i \<and> stage_at k i = Some s \<and>
           d' = update_entry item (set_stage k (s\<lparr>in_progress := a, finished := b\<rparr>)) d"
  using assms by (auto simp: update_stage_def split: option.splits)

lemma update_stage_other:
  assumes "update_stage d item k a b = Inr d'" "map_of d p = Some i" "stage_at k' i = Some s"
    and "\<not> (p = item \<and> k' = k)"
  shows "\<exists>i'. map_of d' p = Some i' \<and> stage_at k' i' = Some s"
proof -
  from update_stage_Inr [OF assms(1)] obtain i0 s0 where
    h: "map_of d item = Some i0" "stage_at k i0 = Some s0"
       "d' = update_entry item (set_stage k (s0\<lparr>in_progress := a, finished := b\<rparr>)) d"
    by blast
  show ?thesis
  proof (cases "p = item")
    case True
    with assms(2) h(1) have "i0 = i" by simp
    with True assms h show ?thesis
      by (simp add: map_of_update_entry stage_at_set_stage)
  next
    case False
    with assms h show ?thesis by (simp add: map_of_update_entry)
  qed
qed

lemma update_stage_same:
  assumes "update_stage d item k a b = Inr d'"
  shows "\<exists>i'. map_of d' item = Some i' \<and> stage_at k i' = Some \<lparr>in_progress = a, finished = b\<rparr>"
proof -
  from update_stage_Inr [OF assms(1)] obtain i0 s0 where
    h: "map_of d item = Some i0" "stage_at k i0 = Some s0"
       "d' = update_entry item (set_stage k (s0\<lparr>in_progress := a, finished := b\<rparr>)) d"
    by blast
  then show ?thesis
    by (simp add: map_of_update_entry stage_at_set_stage)
qed

text \<open>
  Claim C5, as the code has it. \<^verbatim>\<open>set_progress\<close> has no guard on a finished
  stage. A call that returns keeps a finished stage finished, and does not turn
  its in-progress flag on, unless the call names that item and that stage with
  \<^verbatim>\<open>started\<close> set; such a call sets in-progress and clears finished, whatever the
  stage was before.
\<close>

theorem stage_completion_kept:
  assumes "set_progress d item check proc upl db started fin = Inr d'"
    and "map_of d p = Some i" and "stage_at k i = Some s" and "finished s"
  shows "(\<not> (started \<and> p = item \<and> k = to_update proc upl db) \<longrightarrow>
            (\<exists>i' s'. map_of d' p = Some i' \<and> stage_at k i' = Some s' \<and> finished s' \<and>
                     (in_progress s' \<longrightarrow> in_progress s)))
       \<and> (started \<and> p = item \<and> k = to_update proc upl db \<longrightarrow>
            (\<exists>i'. map_of d' p = Some i' \<and>
                  stage_at k i' = Some \<lparr>in_progress = True, finished = False\<rparr>))"
proof (intro conjI impI)
  assume n: "\<not> (started \<and> p = item \<and> k = to_update proc upl db)"
  show "\<exists>i' s'. map_of d' p = Some i' \<and> stage_at k i' = Some s' \<and> finished s' \<and>
                     (in_progress s' \<longrightarrow> in_progress s)"
  proof (cases "p = item \<and> k = to_update proc upl db")
    case True
    with n have ns: "\<not> started" by simp
    show ?thesis
    proof (cases fin)
      case True
      with ns assms(1) have "update_stage d item (to_update proc upl db) False True = Inr d'"
        by (simp add: set_progress_def)
      from update_stage_same [OF this] \<open>p = item \<and> k = to_update proc upl db\<close>
      show ?thesis by auto
    next
      case False
      with ns assms show ?thesis by (auto simp: set_progress_def)
    qed
  next
    case False
    show ?thesis
    proof (cases "started \<or> fin")
      case True
      then obtain a b where "update_stage d item (to_update proc upl db) a b = Inr d'"
        using assms(1) by (auto simp: set_progress_def split: if_splits)
      from update_stage_other [OF this assms(2,3)] False assms(4)
      show ?thesis by auto
    next
      case False
      with assms show ?thesis by (auto simp: set_progress_def)
    qed
  qed
next
  assume y: "started \<and> p = item \<and> k = to_update proc upl db"
  with assms(1) have "update_stage d item (to_update proc upl db) True False = Inr d'"
    by (simp add: set_progress_def)
  from update_stage_same [OF this] y
  show "\<exists>i'. map_of d' p = Some i' \<and>
            stage_at k i' = Some \<lparr>in_progress = True, finished = False\<rparr>"
    by simp
qed

lemmas ex_defs = ex_group_def ex_info_def st_idle_def st_busy_def st_done_def

lemma ex_set_started:
  "set_progress (ex_group st_done) ''/d/c'' False False True False True False = Inr (ex_group st_busy)"
  by (simp add: set_progress_def update_stage_def to_update_def stage_at_def set_stage_def
      update_entry_def ex_defs)

lemma ex_set_finished:
  "set_progress (ex_group st_busy) ''/d/c'' False False True False False True = Inr (ex_group st_done)"
  by (simp add: set_progress_def update_stage_def to_update_def stage_at_def set_stage_def
      update_entry_def ex_defs)

lemma ex_lookup_c: "map_of (ex_group up) ''/d/c'' = Some (ex_info (Some ''/d'') ''d/c.zst.ccp'' up)"
  by (simp add: ex_group_def)

lemma ex_lookup_a: "map_of (ex_group up) ''/d/a'' = Some (ex_info (Some ''/d'') ''d/a.zst.ccp'' st_idle)"
  by (simp add: ex_group_def)

lemma ex_stage_upload: "stage_at ''upload'' (ex_info dn key up) = Some up"
  by (simp add: stage_at_def ex_info_def)

lemma ex_stage_processing: "stage_at ''processing'' (ex_info dn key up) = Some st_done"
  by (simp add: stage_at_def ex_info_def st_done_def)

text \<open>
  The claim as written fails: the upload stage of \<^verbatim>\<open>/d/c\<close> is finished, and
  \<^verbatim>\<open>set_progress(item, upload=True, started=True)\<close> sets it back to in progress and
  not finished.
\<close>

theorem stage_completion_counterexample:
  "map_of (ex_group st_done) ''/d/c'' = Some (ex_info (Some ''/d'') ''d/c.zst.ccp'' st_done)
   \<and> finished (upload (ex_info (Some ''/d'') ''d/c.zst.ccp'' st_done))
   \<and> set_progress (ex_group st_done) ''/d/c'' False False True False True False
       = Inr (ex_group st_busy)
   \<and> map_of (ex_group st_busy) ''/d/c'' = Some (ex_info (Some ''/d'') ''d/c.zst.ccp'' st_busy)
   \<and> in_progress (upload (ex_info (Some ''/d'') ''d/c.zst.ccp'' st_busy))
   \<and> \<not> finished (upload (ex_info (Some ''/d'') ''d/c.zst.ccp'' st_busy))"
  by (simp add: ex_set_started ex_lookup_c) (simp add: ex_info_def st_done_def st_busy_def)

theorem stage_completion_kept_witness:
  "set_progress (ex_group st_busy) ''/d/c'' False False True False False True = Inr (ex_group st_done)
   \<and> map_of (ex_group st_busy) ''/d/a'' = Some (ex_info (Some ''/d'') ''d/a.zst.ccp'' st_idle)
   \<and> stage_at ''processing'' (ex_info (Some ''/d'') ''d/a.zst.ccp'' st_idle) = Some st_done
   \<and> finished st_done
   \<and> (\<exists>i' s'. map_of (ex_group st_done) ''/d/a'' = Some i' \<and>
         stage_at ''processing'' i' = Some s' \<and> finished s' \<and> (in_progress s' \<longrightarrow> in_progress st_done))
   \<and> set_progress (ex_group st_done) ''/d/c'' False False True False True False = Inr (ex_group st_busy)
   \<and> stage_at ''upload'' (ex_info (Some ''/d'') ''d/c.zst.ccp'' st_done) = Some st_done
   \<and> ''upload'' = to_update False True False
   \<and> (\<exists>i'. map_of (ex_group st_busy) ''/d/c'' = Some i' \<and>
         stage_at ''upload'' i' = Some \<lparr>in_progress = True, finished = False\<rparr>)"
proof -
  have f: "finished st_done" by (simp add: st_done_def)
  have u: "''upload'' = to_update False True False" by (simp add: to_update_def)
  show ?thesis
    using stage_completion_kept [OF ex_set_finished ex_lookup_a ex_stage_processing f]
      stage_completion_kept [OF ex_set_started ex_lookup_c ex_stage_upload f]
    by (simp add: ex_set_started ex_set_finished ex_lookup_a ex_lookup_c ex_stage_upload
        ex_stage_processing f u [symmetric])
qed

subsection \<open>Break-on-fail\<close>

lemma map_of_assign: "map_of (assign k v al) k' = (if k' = k then Some v else map_of al k')"
  by (induction al) auto

lemma failed_put_present:
  assumes "map_of fl k \<noteq> None"
  shows "\<exists>fl'. failed_put fl k k2 v = Inr fl' \<and> map_of fl' k \<noteq> None"
  using assms by (auto simp: failed_put_def map_of_assign)

lemma cascade_result:
  assumes "map_of fl dn \<noteq> None"
  shows "\<exists>fl'. cascade file dn (Some e) d fl = Inr (map (\<lambda>(p, i). (p, cancelled_by file e dn i)) d, fl')"
  using assms
proof (induction d arbitrary: fl)
  case Nil
  then show ?case by simp
next
  case (Cons x d)
  obtain p info where x: "x = (p, info)" by (cases x)
  show ?case
  proof (cases "dir_name info = dn \<and> \<not> in_progress (upload info) \<and> \<not> finished (upload info)")
    case True
    from failed_put_present [OF Cons.prems] obtain fl1 where
      f: "failed_put fl dn (File p) (Err (failed_msg file e)) = Inr fl1" "map_of fl1 dn \<noteq> None"
      by blast
    from Cons.IH [OF f(2)] obtain fl2 where
      "cascade file dn (Some e) d fl1 = Inr (map (\<lambda>(p, i). (p, cancelled_by file e dn i)) d, fl2)"
      by blast
    with True f(1) x show ?thesis by (simp add: cancelled_by_def)
  next
    case False
    from Cons.IH [OF Cons.prems] obtain fl2 where
      "cascade file dn (Some e) d fl = Inr (map (\<lambda>(p, i). (p, cancelled_by file e dn i)) d, fl2)"
      by blast
    with False x show ?thesis by (auto simp: cancelled_by_def)
  qed
qed

lemma ensured_key: "map_of (if map_of fl dn = None then fl @ [(dn, [])] else fl) dn \<noteq> None"
  by (cases "map_of fl dn") (simp_all add: map_add_def)

text \<open>
  What \<^verbatim>\<open>update_delivery\<close> does when a file of a directory group is reported as
  failed (\<^verbatim>\<open>updinfo['proceed']\<close> is false, with an error text). With break-on-fail, every
  dictionary of the same group whose upload is neither in progress nor finished
  gets \<^verbatim>\<open>proceed = False\<close> and the error "Failed file: <path> -- <error>", which
  names the failing file and its error, and every other dictionary is unchanged;
  the failing file is one of those cancelled when its own upload has not started.
  Without break-on-fail only the failing file's dictionary changes.
\<close>

theorem break_on_fail_cascade:
  assumes "map_of d file = Some finfo" and "in_directory finfo"
    and "u_proceed upd = Some False" and "u_error upd = Some e"
  shows "(break_on_fail self \<longrightarrow>
           (\<exists>fl'. update_delivery self (d, fl) file upd =
              Inr (map (\<lambda>(p, i). (p, cancelled_by file e (dir_name finfo) i)) d, fl')))
       \<and> (\<not> break_on_fail self \<longrightarrow>
           (\<exists>fl'. update_delivery self (d, fl) file upd =
              Inr (map (\<lambda>(p, i). (p, if p = file then i\<lparr>proceed := False, error := e\<rparr> else i)) d, fl')))"
proof (intro conjI impI)
  assume b: "break_on_fail self"
  from cascade_result [OF ensured_key]
  obtain fl' where "cascade file (dir_name finfo) (Some e) d
      (if map_of fl (dir_name finfo) = None then fl @ [(dir_name finfo, [])] else fl) =
      Inr (map (\<lambda>(p, i). (p, cancelled_by file e (dir_name finfo) i)) d, fl')"
    by blast
  with assms b show "\<exists>fl'. update_delivery self (d, fl) file upd =
              Inr (map (\<lambda>(p, i). (p, cancelled_by file e (dir_name finfo) i)) d, fl')"
    by (simp add: update_delivery_def Let_def)
next
  assume b: "\<not> break_on_fail self"
  from failed_put_present [OF ensured_key]
  obtain fl2 where "failed_put (if map_of fl (dir_name finfo) = None then fl @ [(dir_name finfo, [])] else fl)
      (dir_name finfo) (File file) (Err e) = Inr fl2"
    by blast
  moreover have "update_entry file (\<lambda>i. i\<lparr>proceed := False, error := e\<rparr>) d =
      map (\<lambda>(p, i). (p, if p = file then i\<lparr>proceed := False, error := e\<rparr> else i)) d"
    by (auto simp: update_entry_def)
  ultimately show "\<exists>fl'. update_delivery self (d, fl) file upd =
              Inr (map (\<lambda>(p, i). (p, if p = file then i\<lparr>proceed := False, error := e\<rparr> else i)) d, fl')"
    using assms b by (simp add: update_delivery_def Let_def cancel_file_def)
qed

theorem break_on_fail_cascade_witness:
  "map_of (ex_group st_done) ''/d/a'' = Some (ex_info (Some ''/d'') ''d/a.zst.ccp'' st_idle)
   \<and> in_directory (ex_info (Some ''/d'') ''d/a.zst.ccp'' st_idle)
   \<and> u_proceed ex_reject = Some False \<and> u_error ex_reject = Some ''boom''
   \<and> break_on_fail ex_break
   \<and> (\<exists>fl'. update_delivery ex_break (ex_group st_done, []) ''/d/a'' ex_reject =
        Inr ([(''/d/a'', (ex_info (Some ''/d'') ''d/a.zst.ccp'' st_idle)
                 \<lparr>proceed := False, error := ''Failed file: /d/a -- boom''\<rparr>),
              (''/d/b'', (ex_info (Some ''/d'') ''d/b.zst.ccp'' st_idle)
                 \<lparr>proceed := False, error := ''Failed file: /d/a -- boom''\<rparr>),
              (''/d/c'', ex_info (Some ''/d'') ''d/c.zst.ccp'' st_done),
              (''/e'', ex_info None ''e.zst.ccp'' st_idle)], fl'))
   \<and> \<not> break_on_fail ex_nobreak
   \<and> (\<exists>fl'. update_delivery ex_nobreak (ex_group st_done, []) ''/d/a'' ex_reject =
        Inr ([(''/d/a'', (ex_info (Some ''/d'') ''d/a.zst.ccp'' st_idle)
                 \<lparr>proceed := False, error := ''boom''\<rparr>),
              (''/d/b'', ex_info (Some ''/d'') ''d/b.zst.ccp'' st_idle),
              (''/d/c'', ex_info (Some ''/d'') ''d/c.zst.ccp'' st_done),
              (''/e'', ex_info None ''e.zst.ccp'' st_idle)], fl'))"
proof -
  have d: "in_directory (ex_info (Some ''/d'') ''d/a.zst.ccp'' st_idle)"
    by (simp add: ex_info_def)
  have r: "u_proceed ex_reject = Some False" "u_error ex_reject = Some ''boom''"
    by (simp_all add: ex_reject_def)
  have m: "map (\<lambda>(p, i). (p, cancelled_by ''/d/a'' ''boom'' (dir_name (ex_info (Some ''/d'') ''d/a.zst.ccp'' st_idle)) i))
             (ex_group st_done) =
           [(''/d/a'', (ex_info (Some ''/d'') ''d/a.zst.ccp'' st_idle)
                 \<lparr>proceed := False, error := ''Failed file: /d/a -- boom''\<rparr>),
              (''/d/b'', (ex_info (Some ''/d'') ''d/b.zst.ccp'' st_idle)
                 \<lparr>proceed := False, error := ''Failed file: /d/a -- boom''\<rparr>),
              (''/d/c'', ex_info (Some ''/d'') ''d/c.zst.ccp'' st_done),
              (''/e'', ex_info None ''e.zst.ccp'' st_idle)]"
    by (simp add: cancelled_by_def failed_msg_def ex_defs)
  have n: "map (\<lambda>(p, i). (p, if p = ''/d/a'' then i\<lparr>proceed := False, error := ''boom''\<rparr> else i))
             (ex_group st_done) =
           [(''/d/a'', (ex_info (Some ''/d'') ''d/a.zst.ccp'' st_idle)
                 \<lparr>proceed := False, error := ''boom''\<rparr>),
              (''/d/b'', ex_info (Some ''/d'') ''d/b.zst.ccp'' st_idle),
              (''/d/c'', ex_info (Some ''/d'') ''d/c.zst.ccp'' st_done),
              (''/e'', ex_info None ''e.zst.ccp'' st_idle)]"
    by (simp add: ex_group_def)
  have b: "break_on_fail ex_break" "\<not> break_on_fail ex_nobreak"
    by (simp_all add: ex_break_def ex_nobreak_def)
  show ?thesis
    using break_on_fail_cascade [OF ex_lookup_a [of st_done] d r, where self = ex_break and fl = "[]"]
      break_on_fail_cascade [OF ex_lookup_a [of st_done] d r, where self = ex_nobreak and fl = "[]"]
    by (simp only: m n b ex_lookup_a d r simp_thms)
qed

subsection \<open>Finalize\<close>

lemma finalize_object_deleted:
  assumes "finished (upload info)" "\<not> finished (database info)"
    and "delete_item_error r (new_file info) = None"
  shows "\<exists>ok lg'. finalize r lg f info =
           Inr (ok, r\<lparr>objects := objects r - {new_file info}\<rparr>, lg') \<and> (ok = (db_error r = None))"
  using assms
  by (cases "db_error r") (auto simp: finalize_def delete_item_def get_project_def)

lemma finalize_entry_kept:
  assumes "finished (database info)" "\<not> finished (upload info)"
    and "db_error r = None" and "new_file info \<in> registered r"
  shows "finalize r lg f info = Inr (True, r, lg)"
  using assms
  by (simp add: finalize_def get_project_def del_file_def)

lemma finalize_s3_failure:
  assumes "finished (upload info)" "\<not> finished (database info)"
    and "delete_item_error r (new_file info) = Some e"
  shows "finalize r lg f info = Inr (False, r, lg @ [(WARNING, Msg e)])"
  using assms
  by (simp add: finalize_def delete_item_def)

lemma finalize_db_failure:
  assumes "db_error r = Some e"
    and "\<not> (finished (upload info) \<and> \<not> finished (database info) \<and>
            delete_item_error r (new_file info) \<noteq> None)"
  shows "\<exists>r'. finalize r lg f info = Inr (False, r', lg @ [(WARNING, Msg e)]) \<and>
              registered r' = registered r"
  using assms
  by (cases "delete_item_error r (new_file info)")
     (auto simp: finalize_def delete_item_def get_project_def)

lemma finalize_agree:
  assumes "finished (upload info) = finished (database info)" "db_error r = None"
  shows "finalize r lg f info = Inr (True, r, lg)"
  using assms by (simp add: finalize_def get_project_def)


text \<open>
  Claim C3 does not hold of the code. For a file whose registration is finished
  and whose upload is not, \<^verbatim>\<open>_finalize\<close> deletes the key in the project it has
  fetched and never writes the project back. When the key is not registered, the
  deletion raises \<^verbatim>\<open>KeyError\<close>, which the handler for \<^verbatim>\<open>CouchDBException\<close> does
  not catch: \<^verbatim>\<open>_finalize\<close> raises, where the claim has a logged warning and the
  answer \<^verbatim>\<open>False\<close>. When the key is registered, \<^verbatim>\<open>_finalize\<close> answers \<^verbatim>\<open>True\<close>
  and the metadata store still holds the entry.
\<close>

theorem finalize_misses_metadata:
  "finished (database (ex_rec True st_done st_idle st_done))
   \<and> \<not> finished (upload (ex_rec True st_done st_idle st_done))
   \<and> new_file (ex_rec True st_done st_idle st_done) = ''e.zst.ccp''
   \<and> ''e.zst.ccp'' \<notin> registered ex_unregistered
   \<and> finalize ex_unregistered [] ''/e'' (ex_rec True st_done st_idle st_done) =
        Inl (KeyError ''e.zst.ccp'')
   \<and> ''e.zst.ccp'' \<in> registered (ex_remote None None)
   \<and> finalize (ex_remote None None) [] ''/e'' (ex_rec True st_done st_idle st_done) =
        Inr (True, ex_remote None None, [])"
  by (simp add: finalize_def get_project_def del_file_def ex_rec_def ex_remote_def
      ex_unregistered_def st_done_def st_idle_def)

subsection \<open>Clearing the temporary folder\<close>

lemma clear_tempdir_all_tried:
  assumes "\<forall>d \<in> set ds. rmtree d = None \<or> (\<exists>e. rmtree d = Some (DeliverySystemException e))"
  shows "\<exists>lg'. clear_tempdir rmtree ds tried lg = (tried @ ds, lg', None)"
  using assms
proof (induction ds arbitrary: tried lg)
  case Nil
  then show ?case by simp
next
  case (Cons d ds)
  from Cons.prems have "rmtree d = None \<or> (\<exists>e. rmtree d = Some (DeliverySystemException e))"
    by simp
  then show ?case
  proof
    assume "rmtree d = None"
    with Cons.IH [of "tried @ [d]" lg] Cons.prems show ?thesis by simp
  next
    assume "\<exists>e. rmtree d = Some (DeliverySystemException e)"
    then obtain e where e: "rmtree d = Some (DeliverySystemException e)" by blast
    from Cons.IH [of "tried @ [d]"
        "lg @ [(ERROR, Msg (''Failed emptying the temporary folder '' @ d @ '': '' @ e))]"]
      Cons.prems e
    show ?thesis by simp
  qed
qed

text \<open>
  Claim C8 does not hold of the code. \<^verbatim>\<open>shutil.rmtree\<close> reports a failure with
  \<^verbatim>\<open>OSError\<close>, and the handler of \<^verbatim>\<open>_clear_tempdir\<close> names
  \<^verbatim>\<open>DeliverySystemException\<close>: when the first of two temporary directories cannot
  be removed, the exception leaves the loop, nothing is logged, and removal of the
  second directory is never attempted.
\<close>

theorem clear_tempdir_stops_at_failure:
  "clear_tempdir ex_rmtree [''/tmp/a'', ''/tmp/b''] [] [] =
     ([''/tmp/a''], [], Some (OSError ''Permission denied''))"
  by (simp add: ex_rmtree_def)

subsection \<open>The summary\<close>









subsection \<open>Delivered and failed at once\<close>





subsection \<open>Repeated paths at setup\<close>

lemma keys_assign: "fst ` set (assign k v al) = insert k (fst ` set al)"
proof -
  have "dom (map_of (assign k v al)) = insert k (dom (map_of al))"
    by (auto simp: map_of_assign split: if_splits)
  then show ?thesis by (simp add: dom_map_of_conv_image_fst)
qed

lemma keys_dict_merge: "fst ` set (dict_merge other target) = fst ` set other \<union> fst ` set target"
  by (induction other target rule: dict_merge.induct) (auto simp: keys_assign)

lemma map_of_keys: "map_of al k \<noteq> None \<longleftrightarrow> k \<in> fst ` set al"
  by (simp add: map_of_eq_None_iff)

lemma get_dir_info_classified:
  "get_dir_info self st fs folder fs_list acc = (a, b, c) \<Longrightarrow> set (snd (snd acc)) \<subseteq> set c"
proof (induction fs_list arbitrary: acc)
  case Nil
  then show ?case by simp
next
  case (Cons f rest)
  obtain di df cl where acc: "acc = (di, df, cl)" by (cases acc)
  show ?case
  proof (cases "fs_is_file fs f \<and> \<not> sublist ''DS_Store'' f")
    case True
    show ?thesis
    proof (cases "get_file_info self st (the_file fs f) True folder (fs_name fs folder)")
      case (Rejected e)
      with True Cons.prems acc have
        "get_dir_info self st fs folder rest (di, assign (Some f) (rejected_dict e) df, cl @ [f]) = (a, b, c)"
        by simp
      from Cons.IH [OF this] acc show ?thesis by auto
    next
      case (Accepted i)
      with True Cons.prems acc have
        "get_dir_info self st fs folder rest (assign f i di, df, cl @ [f]) = (a, b, c)"
        by simp
      from Cons.IH [OF this] acc show ?thesis by auto
    qed
  next
    case False
    with Cons.prems acc have "get_dir_info self st fs folder rest (di, df, cl) = (a, b, c)"
      by auto
    from Cons.IH [OF this] acc show ?thesis by auto
  qed
qed

lemma deliver_loop_step:
  assumes "deliver_loop self st fs m (d # ds) (al, fl, cl) = (tr, Inr res)"
  shows "\<exists>al' fl' cl'. deliver_loop self st fs m ds (al', fl', cl') = (tr, Inr res) \<and>
           fst ` set al \<subseteq> fst ` set al' \<and> set cl \<subseteq> set cl' \<and>
           map_of al (Str d) = None \<and> map_of al (Path (fs_resolve fs d)) = None \<and>
           (m = ''put'' \<and> \<not> fs_is_dir fs (fs_resolve fs d) \<and>
            proceeds (get_file_info self st (the_file fs (fs_resolve fs d)) False ''.'' []) \<longrightarrow>
              Path (fs_resolve fs d) \<in> fst ` set al' \<and> fs_resolve fs d \<in> set cl')"
proof -
  from assms have n: "map_of al (Str d) = None" "map_of al (Path (fs_resolve fs d)) = None"
    by (auto split: if_splits)
  show ?thesis
  proof (cases "m = ''get''")
    case True
    with assms n have "deliver_loop self st fs m ds (assign (Str d) Empty al, fl, cl) = (tr, Inr res)"
      by simp
    with n True show ?thesis
      by (intro exI [of _ "assign (Str d) Empty al"] exI [of _ fl] exI [of _ cl])
         (auto simp: keys_assign)
  next
    case False
    note ng = this
    show ?thesis
    proof (cases "m = ''put''")
      case False
      with ng assms n have "deliver_loop self st fs m ds (al, fl, cl) = (tr, Inr res)"
        by simp
      with n False show ?thesis by blast
    next
      case True
      with ng assms n have ex: "fs_exists fs d" by (auto split: if_splits)
      let ?p = "fs_resolve fs d"
      show ?thesis
      proof (cases "fs_is_dir fs ?p")
        case isdir: True
        obtain di df cl' where
          g: "get_dir_info self st fs ?p (fs_glob fs ?p) ([], [], cl) = (di, df, cl')"
          by (cases "get_dir_info self st fs ?p (fs_glob fs ?p) ([], [], cl)") auto
        with True ng assms n ex isdir have
          "deliver_loop self st fs m ds
             (dict_merge (map (\<lambda>(p, i). (Path p, Info i)) di) al, dict_merge df fl, cl') = (tr, Inr res)"
          by simp
        moreover from get_dir_info_classified [OF g] have "set cl \<subseteq> set cl'" by simp
        ultimately show ?thesis
          using n isdir
          by (intro exI [of _ "dict_merge (map (\<lambda>(p, i). (Path p, Info i)) di) al"]
                exI [of _ "dict_merge df fl"] exI [of _ cl'])
             (auto simp: keys_dict_merge)
      next
        case nodir: False
        show ?thesis
        proof (cases "get_file_info self st (the_file fs ?p) False ''.'' []")
          case (Rejected e)
          with True ng assms n ex nodir have
            "deliver_loop self st fs m ds (al, assign (Some ?p) (rejected_dict e) fl, cl @ [?p]) = (tr, Inr res)"
            by simp
          with n Rejected show ?thesis
            by (intro exI [of _ al] exI [of _ "assign (Some ?p) (rejected_dict e) fl"]
                  exI [of _ "cl @ [?p]"]) auto
        next
          case (Accepted i)
          with True ng assms n ex nodir have
            "deliver_loop self st fs m ds (assign (Path ?p) (Info i) al, fl, cl @ [?p]) = (tr, Inr res)"
            by simp
          with n show ?thesis
            by (intro exI [of _ "assign (Path ?p) (Info i) al"] exI [of _ fl]
                  exI [of _ "cl @ [?p]"]) (auto simp: keys_assign)
        qed
      qed
    qed
  qed
qed

lemma deliver_loop_mono:
  "deliver_loop self st fs m ds (al, fl, cl) = (tr, Inr res) \<Longrightarrow>
   fst ` set al \<subseteq> fst ` set (fst res) \<and> set cl \<subseteq> set tr"
proof (induction ds arbitrary: al fl cl)
  case Nil
  then show ?case by auto
next
  case (Cons d ds)
  from deliver_loop_step [OF Cons.prems] obtain al' fl' cl' where
    s: "deliver_loop self st fs m ds (al', fl', cl') = (tr, Inr res)"
       "fst ` set al \<subseteq> fst ` set al'" "set cl \<subseteq> set cl'"
    by blast
  from Cons.IH [OF s(1)] s(2,3) show ?case by blast
qed

lemma deliver_loop_append:
  "deliver_loop self st fs m pre (al0, fl0, cl0) = (tr, Inr (al, fl)) \<Longrightarrow>
   deliver_loop self st fs m (pre @ rest) (al0, fl0, cl0) = deliver_loop self st fs m rest (al, fl, tr)"
proof (induction pre arbitrary: al0 fl0 cl0)
  case Nil
  then show ?case by simp
next
  case (Cons d ds)
  from Cons.prems have n: "map_of al0 (Str d) = None"
      "map_of al0 (Path (fs_resolve fs d)) = None"
    by (auto split: if_splits)
  show ?case
  proof (cases "m = ''get''")
    case True
    with n Cons.prems have
      "deliver_loop self st fs m ds (assign (Str d) Empty al0, fl0, cl0) = (tr, Inr (al, fl))"
      by simp
    from Cons.IH [OF this] True n show ?thesis by simp
  next
    case ng: False
    show ?thesis
    proof (cases "m = ''put''")
      case False
      with ng n Cons.prems have "deliver_loop self st fs m ds (al0, fl0, cl0) = (tr, Inr (al, fl))"
        by simp
      from Cons.IH [OF this] False ng n show ?thesis by simp
    next
      case True
      with ng n Cons.prems have ex: "fs_exists fs d" by (auto split: if_splits)
      show ?thesis
      proof (cases "fs_is_dir fs (fs_resolve fs d)")
        case isdir: True
        obtain di df cl' where
          g: "get_dir_info self st fs (fs_resolve fs d) (fs_glob fs (fs_resolve fs d))
                ([], [], cl0) = (di, df, cl')"
          by (cases "get_dir_info self st fs (fs_resolve fs d) (fs_glob fs (fs_resolve fs d))
                ([], [], cl0)") auto
        with True ng n ex isdir Cons.prems have
          "deliver_loop self st fs m ds
             (dict_merge (map (\<lambda>(p, i). (Path p, Info i)) di) al0, dict_merge df fl0, cl') =
           (tr, Inr (al, fl))"
          by simp
        from Cons.IH [OF this] g True ng n ex isdir show ?thesis by simp
      next
        case nodir: False
        show ?thesis
        proof (cases "get_file_info self st (the_file fs (fs_resolve fs d)) False ''.'' []")
          case (Rejected e)
          with True ng n ex nodir Cons.prems have
            "deliver_loop self st fs m ds
               (al0, assign (Some (fs_resolve fs d)) (rejected_dict e) fl0, cl0 @ [fs_resolve fs d]) =
             (tr, Inr (al, fl))"
            by simp
          from Cons.IH [OF this] Rejected True ng n ex nodir show ?thesis by simp
        next
          case (Accepted i)
          with True ng n ex nodir Cons.prems have
            "deliver_loop self st fs m ds
               (assign (Path (fs_resolve fs d)) (Info i) al0, fl0, cl0 @ [fs_resolve fs d]) =
             (tr, Inr (al, fl))"
            by simp
          from Cons.IH [OF this] Accepted True ng n ex nodir show ?thesis by simp
        qed
      qed
    qed
  qed
qed

lemma accepted_present:
  assumes "deliver_loop self st fs ''put'' pre (al, fl, cl) = (tr, Inr res)"
    and "d \<in> set pre" and "\<not> fs_is_dir fs (fs_resolve fs d)"
    and "proceeds (get_file_info self st (the_file fs (fs_resolve fs d)) False ''.'' [])"
  shows "Path (fs_resolve fs d) \<in> fst ` set (fst res) \<and> fs_resolve fs d \<in> set tr"
  using assms
proof (induction pre arbitrary: al fl cl)
  case Nil
  then show ?case by simp
next
  case (Cons x pre)
  from deliver_loop_step [OF Cons.prems(1)] obtain al' fl' cl' where
    s: "deliver_loop self st fs ''put'' pre (al', fl', cl') = (tr, Inr res)"
       "\<not> fs_is_dir fs (fs_resolve fs x) \<and>
            proceeds (get_file_info self st (the_file fs (fs_resolve fs x)) False ''.'' []) \<longrightarrow>
              Path (fs_resolve fs x) \<in> fst ` set al' \<and> fs_resolve fs x \<in> set cl'"
    by auto
  show ?case
  proof (cases "d = x")
    case True
    with s(2) Cons.prems(3,4) deliver_loop_mono [OF s(1)] show ?thesis by blast
  next
    case False
    with Cons.prems(2) have "d \<in> set pre" by simp
    from Cons.IH [OF s(1) this Cons.prems(3,4)] show ?thesis .
  qed
qed

lemma get_loop_dup:
  assumes "\<forall>k \<in> fst ` set al. \<exists>s. k = Str s"
    and "\<not> distinct ds \<or> (\<exists>d \<in> set ds. map_of al (Str d) \<noteq> None)"
  shows "\<exists>d \<in> set ds. deliver_loop self st fs ''get'' ds (al, fl, cl) =
           (cl, Inl (DeliveryOptionException (dup_msg d)))"
  using assms
proof (induction ds arbitrary: al)
  case Nil
  then show ?case by simp
next
  case (Cons d ds)
  show ?case
  proof (cases "map_of al (Str d) = None")
    case False
    then show ?thesis by auto
  next
    case True
    from Cons.prems(1) have np: "map_of al (Path (fs_resolve fs d)) = None"
      by (auto simp: map_of_eq_None_iff)
    let ?al = "assign (Str d) Empty al"
    have k: "\<forall>k \<in> fst ` set ?al. \<exists>s. k = Str s"
      using Cons.prems(1) by (auto simp: keys_assign)
    have "\<not> distinct ds \<or> (\<exists>d' \<in> set ds. map_of ?al (Str d') \<noteq> None)"
      using Cons.prems(2) True by (auto simp: map_of_assign)
    from Cons.IH [OF k this] True np show ?thesis by auto
  qed
qed

text \<open>
  Claim C7, as the code has it. In a get session an input list with a repeated
  path makes setup raise \<^verbatim>\<open>DeliveryOptionException\<close> with nothing classified. In a
  put session the check is made inside the loop over the list: when the loop has
  passed the entries before a path without raising, and that path resolves to the
  same file as an earlier entry that classification accepted, setup raises
  \<^verbatim>\<open>DeliveryOptionException\<close> at that path without classifying it again, and the
  files of the entries before it have been classified by then, the earlier entry
  among them.
\<close>

theorem duplicate_paths_rejected:
  "(\<not> distinct (data_list_of data_arg pathfile_lines) \<longrightarrow>
      (\<exists>d \<in> set (data_list_of data_arg pathfile_lines).
         data_to_deliver self st fs ''get'' data_arg pathfile_lines =
           ([], Inl (DeliveryOptionException (dup_msg d)))))
   \<and> (data_list_of data_arg pathfile_lines = pre @ d # post \<and>
      deliver_loop self st fs ''put'' pre ([], [], []) = (tr, Inr (al, fl)) \<and>
      d' \<in> set pre \<and> fs_resolve fs d' = fs_resolve fs d \<and> \<not> fs_is_dir fs (fs_resolve fs d') \<and>
      proceeds (get_file_info self st (the_file fs (fs_resolve fs d')) False ''.'' []) \<longrightarrow>
        data_to_deliver self st fs ''put'' data_arg pathfile_lines =
          (tr, Inl (DeliveryOptionException (dup_msg d))) \<and>
        fs_resolve fs d \<in> set tr)"
proof (rule conjI; rule impI)
  assume "\<not> distinct (data_list_of data_arg pathfile_lines)"
  then have "\<exists>d \<in> set (data_list_of data_arg pathfile_lines).
      deliver_loop self st fs ''get'' (data_list_of data_arg pathfile_lines) ([], [], []) =
        ([], Inl (DeliveryOptionException (dup_msg d)))"
    by (intro get_loop_dup) simp_all
  then show "\<exists>d \<in> set (data_list_of data_arg pathfile_lines).
         data_to_deliver self st fs ''get'' data_arg pathfile_lines =
           ([], Inl (DeliveryOptionException (dup_msg d)))"
    by (simp add: data_to_deliver_def)
next
  assume a: "data_list_of data_arg pathfile_lines = pre @ d # post \<and>
      deliver_loop self st fs ''put'' pre ([], [], []) = (tr, Inr (al, fl)) \<and>
      d' \<in> set pre \<and> fs_resolve fs d' = fs_resolve fs d \<and> \<not> fs_is_dir fs (fs_resolve fs d') \<and>
      proceeds (get_file_info self st (the_file fs (fs_resolve fs d')) False ''.'' [])"
  then have l: "deliver_loop self st fs ''put'' pre ([], [], []) = (tr, Inr (al, fl))" by simp
  from a have m: "d' \<in> set pre" "\<not> fs_is_dir fs (fs_resolve fs d')"
    "proceeds (get_file_info self st (the_file fs (fs_resolve fs d')) False ''.'' [])"
    and e: "fs_resolve fs d' = fs_resolve fs d"
    by blast+
  from accepted_present [OF l m] e
  have k: "Path (fs_resolve fs d) \<in> fst ` set al" "fs_resolve fs d \<in> set tr"
    by simp_all
  then have "map_of al (Path (fs_resolve fs d)) \<noteq> None"
    by (simp add: map_of_eq_None_iff)
  then have "deliver_loop self st fs ''put'' (d # post) (al, fl, tr) =
      (tr, Inl (DeliveryOptionException (dup_msg d)))"
    by simp
  with deliver_loop_append [OF l, of "d # post"] a
  have "data_to_deliver self st fs ''put'' data_arg pathfile_lines =
          (tr, Inl (DeliveryOptionException (dup_msg d)))"
    by (simp add: data_to_deliver_def)
  with k(2) show "data_to_deliver self st fs ''put'' data_arg pathfile_lines =
          (tr, Inl (DeliveryOptionException (dup_msg d))) \<and>
        fs_resolve fs d \<in> set tr"
    by simp
qed

lemma ex_target: "target_key (ex_stores db bucket) (the_file ex_fs ''/data/a.txt'') False [] = ''a.txt.zst.ccp''"
  by (simp add: target_key_def ex_stores_def the_file_def ex_fs_def ex_key)

lemma ex_accepts:
  "proceeds (get_file_info ex_break (ex_stores {} {}) (the_file ex_fs ''/data/a.txt'') False ''.'' [])"
  by (simp add: get_file_info_def ex_stores_def the_file_def ex_fs_def ex_key ex_break_def)

lemma ex_rejects:
  "get_file_info ex_break (ex_stores {''a.txt.zst.ccp''} {}) (the_file ex_fs ''/data/a.txt'') False ''.'' []
     = Rejected (already_in_db ''/data/a.txt'')"
  by (simp add: get_file_info_def ex_stores_def the_file_def ex_fs_def ex_key ex_break_def)

lemma ex_first_pass:
  "\<exists>al. deliver_loop ex_break (ex_stores {} {}) ex_fs ''put'' [''a.txt''] ([], [], []) =
     ([''/data/a.txt''], Inr (al, []))"
proof -
  have r: "fs_resolve ex_fs ''a.txt'' = ''/data/a.txt''" "fs_exists ex_fs ''a.txt''"
    "\<not> fs_is_dir ex_fs ''/data/a.txt''"
    by (simp_all add: ex_fs_def)
  from ex_accepts obtain i where
    "get_file_info ex_break (ex_stores {} {}) (the_file ex_fs ''/data/a.txt'') False ''.'' [] = Accepted i"
    by (cases "get_file_info ex_break (ex_stores {} {}) (the_file ex_fs ''/data/a.txt'') False ''.'' []")
       auto
  with r show ?thesis by simp
qed

text \<open>
  The claim as written fails: for the list \<^verbatim>\<open>a.txt, a.txt\<close> of a put session the
  exception is raised after \<^verbatim>\<open>/data/a.txt\<close> has been classified.
\<close>

theorem duplicate_paths_counterexample:
  "data_to_deliver ex_break (ex_stores {} {}) ex_fs ''put'' [''a.txt'', ''a.txt''] None =
     ([''/data/a.txt''], Inl (DeliveryOptionException (dup_msg ''a.txt'')))
   \<and> [''/data/a.txt''] \<noteq> []"
proof -
  have r: "fs_resolve ex_fs ''a.txt'' = ''/data/a.txt''" "fs_exists ex_fs ''a.txt''"
    "\<not> fs_is_dir ex_fs ''/data/a.txt''"
    by (simp_all add: ex_fs_def)
  from ex_accepts obtain i where
    "get_file_info ex_break (ex_stores {} {}) (the_file ex_fs ''/data/a.txt'') False ''.'' [] = Accepted i"
    by (cases "get_file_info ex_break (ex_stores {} {}) (the_file ex_fs ''/data/a.txt'') False ''.'' []")
       auto
  with r show ?thesis
    by (simp add: data_to_deliver_def data_list_of_def)
qed

text \<open>
  A repeated path whose first occurrence was rejected is not among the accepted
  files when the loop reaches it again: it is classified a second time and
  nothing is raised.
\<close>

lemma repeated_rejected_path:
  "data_to_deliver ex_break (ex_stores {''a.txt.zst.ccp''} {}) ex_fs ''put'' [''a.txt'', ''a.txt''] None =
     ([''/data/a.txt'', ''/data/a.txt''],
      Inr ([], [(Some ''/data/a.txt'', rejected_dict (already_in_db ''/data/a.txt''))]))"
proof -
  have r: "fs_resolve ex_fs ''a.txt'' = ''/data/a.txt''" "fs_exists ex_fs ''a.txt''"
    "\<not> fs_is_dir ex_fs ''/data/a.txt''"
    by (simp_all add: ex_fs_def)
  show ?thesis
    by (simp add: data_to_deliver_def data_list_of_def r ex_rejects)
qed

theorem duplicate_paths_rejected_witness:
  "\<not> distinct (data_list_of [''x''] (Some [''x '']))
   \<and> data_to_deliver ex_break (ex_stores {} {}) ex_fs ''get'' [''x''] (Some [''x '']) =
       ([], Inl (DeliveryOptionException (dup_msg ''x'')))
   \<and> data_list_of [''a.txt'', ''a.txt''] None = [''a.txt''] @ ''a.txt'' # []
   \<and> ''a.txt'' \<in> set [''a.txt'']
   \<and> \<not> fs_is_dir ex_fs (fs_resolve ex_fs ''a.txt'')
   \<and> proceeds (get_file_info ex_break (ex_stores {} {})
         (the_file ex_fs (fs_resolve ex_fs ''a.txt'')) False ''.'' [])
   \<and> data_to_deliver ex_break (ex_stores {} {}) ex_fs ''put'' [''a.txt'', ''a.txt''] None =
       ([''/data/a.txt''], Inl (DeliveryOptionException (dup_msg ''a.txt'')))"
proof -
  have l: "data_list_of [''x''] (Some [''x '']) = [''x'', ''x'']"
    by (simp add: data_list_of_def strip_def is_space_def)
  have l2: "data_list_of [''a.txt'', ''a.txt''] None = [''a.txt''] @ ''a.txt'' # []"
    by (simp add: data_list_of_def)
  have r: "fs_resolve ex_fs ''a.txt'' = ''/data/a.txt''" "\<not> fs_is_dir ex_fs ''/data/a.txt''"
    by (simp_all add: ex_fs_def)
  from ex_first_pass obtain al where
    p: "deliver_loop ex_break (ex_stores {} {}) ex_fs ''put'' [''a.txt''] ([], [], []) =
     ([''/data/a.txt''], Inr (al, []))"
    by blast
  from duplicate_paths_rejected [of "[''x'']" "Some [''x '']" ex_break "ex_stores {} {}" ex_fs]
  have g: "data_to_deliver ex_break (ex_stores {} {}) ex_fs ''get'' [''x''] (Some [''x '']) =
       ([], Inl (DeliveryOptionException (dup_msg ''x'')))"
    by (simp add: l)
  from duplicate_paths_rejected
    [of "[''a.txt'', ''a.txt'']" None ex_break "ex_stores {} {}" ex_fs "[''a.txt'']" "''a.txt''" "[]"
      "[''/data/a.txt'']" al "[]" "''a.txt''"]
    l2 p r ex_accepts
  have "data_to_deliver ex_break (ex_stores {} {}) ex_fs ''put'' [''a.txt'', ''a.txt''] None =
       ([''/data/a.txt''], Inl (DeliveryOptionException (dup_msg ''a.txt'')))"
    by simp
  with g l l2 r ex_accepts show ?thesis by simp
qed

subsection \<open>Download\<close>

lemma extends_refl: "extends path s s"
  by (simp add: extends_def)

lemma extends_trans: "extends path s s' \<Longrightarrow> extends path s' s'' \<Longrightarrow> extends path s s''"
  by (auto simp: extends_def)

lemma make_folders_keeps: "fs q \<noteq> None \<Longrightarrow> make_folders xs fs q = fs q"
  by (induction xs arbitrary: fs) auto

lemma make_folders_makes: "a \<in> set xs \<Longrightarrow> make_folders xs fs a \<noteq> None"
proof (induction xs arbitrary: fs)
  case Nil
  then show ?case by simp
next
  case (Cons x xs)
  show ?case
  proof (cases "a = x")
    case True
    have "(if fs x = None then fs(x \<mapsto> Folder) else fs) x \<noteq> None" by simp
    then have "make_folders xs (if fs x = None then fs(x \<mapsto> Folder) else fs) x =
        (if fs x = None then fs(x \<mapsto> Folder) else fs) x"
      by (rule make_folders_keeps)
    with True show ?thesis by simp
  next
    case False
    with Cons show ?thesis by simp
  qed
qed

lemma mkdir_parents_Inr:
  assumes "mkdir_parents env fs p = Inr fs'"
  shows "\<forall>q. fs q \<noteq> None \<longrightarrow> fs' q = fs q" and "fs' p \<noteq> None"
proof -
  from assms have e: "fs' = make_folders (ancestors p @ [p]) fs"
    by (auto simp: mkdir_parents_def split: if_splits option.splits)
  show "\<forall>q. fs q \<noteq> None \<longrightarrow> fs' q = fs q"
    unfolding e by (simp add: make_folders_keeps)
  show "fs' p \<noteq> None"
    unfolding e by (rule make_folders_makes) simp
qed

lemma path_exists_mono:
  "\<forall>q. fs q \<noteq> None \<longrightarrow> fs' q = fs q \<Longrightarrow> path_exists fs p \<Longrightarrow> path_exists fs' p"
  by (auto simp: path_exists_def)

lemma set_download_Inr:
  "set_download d path np v = Inr d' \<Longrightarrow> map_of d path \<noteq> None \<and> map_of d' path \<noteq> None"
  by (auto simp: set_download_def map_of_assign split: option.splits)

lemma set_download_again:
  "map_of d path \<noteq> None \<Longrightarrow> \<exists>d'. set_download d path np v = Inr d' \<and> map_of d' path \<noteq> None"
  by (auto simp: set_download_def map_of_assign split: option.splits)

lemma download_to_Inr:
  "download_to env fs key np = Inr fs2 \<Longrightarrow> \<exists>c. fs2 = fs(np \<mapsto> Regular c)"
  by (auto simp: download_to_def split: sum.splits if_splits)

lemma download_to_fails_mono:
  assumes "download_to env fs key np = Inl e" and "\<forall>q. fs q \<noteq> None \<longrightarrow> fs' q = fs q"
  shows "download_to env fs' key np = Inl e"
proof (cases "download env key")
  case (Inl x)
  with assms(1) show ?thesis by (simp add: download_to_def)
next
  case (Inr c)
  with assms(1) have r: "is_regular (fs (parent np))" and e: "e = OSError ''Not a directory''"
    by (auto simp: download_to_def split: if_splits)
  from r have "fs (parent np) \<noteq> None" by (cases "fs (parent np)") auto
  with assms(2) have "fs' (parent np) = fs (parent np)" by simp
  with r e Inr show ?thesis by (simp add: download_to_def)
qed

lemma get_step_Inr:
  assumes "get_step env path s key = Inr s'"
  shows "\<exists>fs1. (\<forall>q. local s q \<noteq> None \<longrightarrow> fs1 q = local s q) \<and>
           path_exists fs1 (parent (local_path (tempdir env) key)) \<and>
           ((path_exists fs1 (local_path (tempdir env) key) \<and>
               s' = s\<lparr>local := fs1, printed := printed s @ [exists_msg (local_path (tempdir env) key)]\<rparr>)
          \<or> (\<not> path_exists fs1 (local_path (tempdir env) key) \<and>
               (\<exists>e d. download_to env fs1 key (local_path (tempdir env) key) = Inl e \<and>
                  (\<forall>m. e \<noteq> SystemExit m) \<and>
                  set_download (g_data s) path (local_path (tempdir env) key) (Download_failed e) = Inr d \<and>
                  s' = s\<lparr>local := fs1, g_data := d\<rparr>))
          \<or> (\<not> path_exists fs1 (local_path (tempdir env) key) \<and>
               (\<exists>fs2 d. download_to env fs1 key (local_path (tempdir env) key) = Inr fs2 \<and>
                  set_download (g_data s) path (local_path (tempdir env) key) Downloaded = Inr d \<and>
                  s' = s\<lparr>local := fs2, g_data := d\<rparr>)))"
proof -
  let ?np = "local_path (tempdir env) key"
  let ?first = "if \<not> path_exists (local s) (parent ?np)
               then mkdir_parents env (local s) (parent ?np) else Inr (local s)"
  from assms obtain fs1 where f: "?first = Inr fs1"
    by (cases ?first) (auto simp: get_step_def Let_def split: exn.splits)
  have k: "\<forall>q. local s q \<noteq> None \<longrightarrow> fs1 q = local s q"
    using f mkdir_parents_Inr(1) [of env "local s" "parent ?np" fs1]
    by (auto split: if_splits)
  have p: "path_exists fs1 (parent ?np)"
    using f mkdir_parents_Inr(2) [of env "local s" "parent ?np" fs1]
    by (auto simp: path_exists_def split: if_splits)
  have r: "get_step env path s key =
      (if \<not> path_exists fs1 ?np
             then (case download_to env fs1 key ?np of
                     Inl (SystemExit m) \<Rightarrow> Inl (SystemExit m)
                   | Inl e \<Rightarrow>
                       (case set_download (g_data s) path ?np (Download_failed e) of
                          Inl x \<Rightarrow> Inl x
                        | Inr d \<Rightarrow> Inr (s\<lparr>local := fs1, g_data := d\<rparr>))
                   | Inr fs2 \<Rightarrow>
                       (case set_download (g_data s) path ?np Downloaded of
                          Inl x \<Rightarrow> Inl x
                        | Inr d \<Rightarrow> Inr (s\<lparr>local := fs2, g_data := d\<rparr>)))
             else Inr (s\<lparr>local := fs1, printed := printed s @ [exists_msg ?np]\<rparr>))"
    using f by (simp add: get_step_def Let_def)
  show ?thesis
  proof (cases "path_exists fs1 ?np")
    case True
    with r assms k p show ?thesis by auto
  next
    case False
    show ?thesis
    proof (cases "download_to env fs1 key ?np")
      case (Inl e)
      with r assms False obtain d where
        "\<forall>m. e \<noteq> SystemExit m"
        "set_download (g_data s) path ?np (Download_failed e) = Inr d"
        "s' = s\<lparr>local := fs1, g_data := d\<rparr>"
        by (cases e; cases "set_download (g_data s) path ?np (Download_failed e)") auto
      with Inl False k p show ?thesis by blast
    next
      case (Inr fs2)
      with r assms False obtain d where
        "set_download (g_data s) path ?np Downloaded = Inr d"
        "s' = s\<lparr>local := fs2, g_data := d\<rparr>"
        by (cases "set_download (g_data s) path ?np Downloaded") auto
      with Inr False k p show ?thesis by blast
    qed
  qed
qed

lemma get_step_extends:
  assumes "get_step env path s key = Inr s'"
  shows "extends path s s'"
proof -
  let ?np = "local_path (tempdir env) key"
  from get_step_Inr [OF assms] obtain fs1 where
    k: "\<forall>q. local s q \<noteq> None \<longrightarrow> fs1 q = local s q"
    and c: "(path_exists fs1 ?np \<and> s' = s\<lparr>local := fs1, printed := printed s @ [exists_msg ?np]\<rparr>)
          \<or> (\<not> path_exists fs1 ?np \<and>
               (\<exists>e d. download_to env fs1 key ?np = Inl e \<and> (\<forall>m. e \<noteq> SystemExit m) \<and>
                  set_download (g_data s) path ?np (Download_failed e) = Inr d \<and>
                  s' = s\<lparr>local := fs1, g_data := d\<rparr>))
          \<or> (\<not> path_exists fs1 ?np \<and>
               (\<exists>fs2 d. download_to env fs1 key ?np = Inr fs2 \<and>
                  set_download (g_data s) path ?np Downloaded = Inr d \<and>
                  s' = s\<lparr>local := fs2, g_data := d\<rparr>))"
    by blast
  from c show ?thesis
  proof (elim disjE conjE exE)
    assume "s' = s\<lparr>local := fs1, printed := printed s @ [exists_msg ?np]\<rparr>"
    with k show ?thesis by (auto simp: extends_def)
  next
    fix e d
    assume "set_download (g_data s) path ?np (Download_failed e) = Inr d"
      "s' = s\<lparr>local := fs1, g_data := d\<rparr>"
    with k set_download_Inr show ?thesis by (auto simp: extends_def)
  next
    fix fs2 d
    assume n: "\<not> path_exists fs1 ?np" and dl: "download_to env fs1 key ?np = Inr fs2"
      and sd: "set_download (g_data s) path ?np Downloaded = Inr d"
      and s': "s' = s\<lparr>local := fs2, g_data := d\<rparr>"
    from download_to_Inr [OF dl] obtain c where fs2: "fs2 = fs1(?np \<mapsto> Regular c)" by blast
    from n have "fs1 ?np = None" by (simp add: path_exists_def)
    with k fs2 have "\<forall>q. local s q \<noteq> None \<longrightarrow> fs2 q = local s q" by auto
    with s' set_download_Inr [OF sd] show ?thesis by (auto simp: extends_def)
  qed
qed

lemma get_step_settles:
  assumes "get_step env path s key = Inr s'"
  shows "settled env path s' key"
proof -
  let ?np = "local_path (tempdir env) key"
  from get_step_Inr [OF assms] obtain fs1 where
    p: "path_exists fs1 (parent ?np)"
    and c: "(path_exists fs1 ?np \<and> s' = s\<lparr>local := fs1, printed := printed s @ [exists_msg ?np]\<rparr>)
          \<or> (\<not> path_exists fs1 ?np \<and>
               (\<exists>e d. download_to env fs1 key ?np = Inl e \<and> (\<forall>m. e \<noteq> SystemExit m) \<and>
                  set_download (g_data s) path ?np (Download_failed e) = Inr d \<and>
                  s' = s\<lparr>local := fs1, g_data := d\<rparr>))
          \<or> (\<not> path_exists fs1 ?np \<and>
               (\<exists>fs2 d. download_to env fs1 key ?np = Inr fs2 \<and>
                  set_download (g_data s) path ?np Downloaded = Inr d \<and>
                  s' = s\<lparr>local := fs2, g_data := d\<rparr>))"
    by blast
  from c show ?thesis
  proof (elim disjE conjE exE)
    assume "path_exists fs1 ?np" "s' = s\<lparr>local := fs1, printed := printed s @ [exists_msg ?np]\<rparr>"
    with p show ?thesis by (simp add: settled_def)
  next
    fix e d
    assume "download_to env fs1 key ?np = Inl e" "\<forall>m. e \<noteq> SystemExit m"
      "set_download (g_data s) path ?np (Download_failed e) = Inr d"
      "s' = s\<lparr>local := fs1, g_data := d\<rparr>"
    with p set_download_Inr [of "g_data s" path ?np "Download_failed e" d] show ?thesis
      by (cases e) (simp_all add: settled_def)
  next
    fix fs2 d
    assume dl: "download_to env fs1 key ?np = Inr fs2"
      and s': "s' = s\<lparr>local := fs2, g_data := d\<rparr>"
    from download_to_Inr [OF dl] obtain c where fs2: "fs2 = fs1(?np \<mapsto> Regular c)" by blast
    with p have "path_exists fs2 (parent ?np)" "path_exists fs2 ?np"
      by (auto simp: path_exists_def)
    with s' show ?thesis by (simp add: settled_def)
  qed
qed

lemma settled_mono:
  assumes "settled env path s key" and "extends path s s'"
  shows "settled env path s' key"
proof -
  let ?np = "local_path (tempdir env) key"
  from assms(2) have k: "\<forall>q. local s q \<noteq> None \<longrightarrow> local s' q = local s q"
    and dk: "map_of (g_data s) path \<noteq> None \<longrightarrow> map_of (g_data s') path \<noteq> None"
    by (simp_all add: extends_def)
  from assms(1) have p: "path_exists (local s) (parent ?np)"
    by (simp add: settled_def Let_def)
  from path_exists_mono [OF k p] have p': "path_exists (local s') (parent ?np)" .
  show ?thesis
  proof (cases "path_exists (local s) ?np")
    case True
    from path_exists_mono [OF k True] p' show ?thesis by (simp add: settled_def)
  next
    case False
    with assms(1) obtain e where
      e: "download_to env (local s) key ?np = Inl e" "\<forall>m. e \<noteq> SystemExit m"
      and m: "map_of (g_data s) path \<noteq> None"
      by (cases "download_to env (local s) key ?np")
         (auto simp: settled_def Let_def split: exn.splits)
    from download_to_fails_mono [OF e(1) k] e(2) m dk p' show ?thesis
      by (cases e) (simp_all add: settled_def)
  qed
qed

lemma settled_step:
  assumes "settled env path s key"
  shows "\<exists>s'. get_step env path s key = Inr s' \<and> local s' = local s \<and> extends path s s'"
proof -
  let ?np = "local_path (tempdir env) key"
  from assms have p: "path_exists (local s) (parent ?np)"
    by (simp add: settled_def Let_def)
  show ?thesis
  proof (cases "path_exists (local s) ?np")
    case True
    with p show ?thesis by (auto simp: get_step_def extends_def)
  next
    case False
    with assms obtain e where
      e: "download_to env (local s) key ?np = Inl e" "\<forall>m. e \<noteq> SystemExit m"
      and m: "map_of (g_data s) path \<noteq> None"
      by (cases "download_to env (local s) key ?np")
         (auto simp: settled_def Let_def split: exn.splits)
    from set_download_again [OF m, of ?np "Download_failed e"] obtain d where
      d: "set_download (g_data s) path ?np (Download_failed e) = Inr d"
         "map_of d path \<noteq> None"
      by blast
    with p False e show ?thesis
      by (cases e) (simp_all add: get_step_def extends_def)
  qed
qed

lemma get_loop_extends:
  "get_loop env path keys s = Inr s' \<Longrightarrow> extends path s s'"
proof (induction keys arbitrary: s)
  case Nil
  then show ?case by (simp add: extends_refl)
next
  case (Cons key keys)
  then obtain s1 where s1: "get_step env path s key = Inr s1" "get_loop env path keys s1 = Inr s'"
    by (auto split: sum.splits)
  from get_step_extends [OF s1(1)] Cons.IH [OF s1(2)] show ?case
    by (rule extends_trans)
qed

lemma get_loop_settles:
  "get_loop env path keys s = Inr s' \<Longrightarrow> \<forall>key \<in> set keys. settled env path s' key"
proof (induction keys arbitrary: s)
  case Nil
  then show ?case by simp
next
  case (Cons key keys)
  then obtain s1 where s1: "get_step env path s key = Inr s1" "get_loop env path keys s1 = Inr s'"
    by (auto split: sum.splits)
  from settled_mono [OF get_step_settles [OF s1(1)] get_loop_extends [OF s1(2)]]
    Cons.IH [OF s1(2)]
  show ?case by simp
qed

lemma get_loop_settled:
  "\<forall>key \<in> set keys. settled env path s key \<Longrightarrow>
   \<exists>s'. get_loop env path keys s = Inr s' \<and> local s' = local s"
proof (induction keys arbitrary: s)
  case Nil
  then show ?case by simp
next
  case (Cons key keys)
  from settled_step [of env path s key] Cons.prems obtain s1 where
    s1: "get_step env path s key = Inr s1" "local s1 = local s" "extends path s s1"
    by auto
  from Cons.prems s1(3) have "\<forall>k \<in> set keys. settled env path s1 k"
    by (auto intro: settled_mono)
  from Cons.IH [OF this] s1 show ?case by auto
qed

lemma get_loop_message:
  assumes "get_loop env path keys s = Inr s'" and "key \<in> set keys"
    and "path_exists (local s) (local_path (tempdir env) key)"
  shows "exists_msg (local_path (tempdir env) key) \<in> set (printed s')"
  using assms
proof (induction keys arbitrary: s)
  case Nil
  then show ?case by simp
next
  case (Cons k keys)
  then obtain s1 where s1: "get_step env path s k = Inr s1" "get_loop env path keys s1 = Inr s'"
    by (auto split: sum.splits)
  from get_step_extends [OF s1(1)] have x: "extends path s s1" .
  then have k1: "\<forall>q. local s q \<noteq> None \<longrightarrow> local s1 q = local s q"
    by (simp add: extends_def)
  show ?case
  proof (cases "key = k")
    case True
    from get_step_Inr [OF s1(1)] obtain fs1 where
      f: "\<forall>q. local s q \<noteq> None \<longrightarrow> fs1 q = local s q"
      and c: "(path_exists fs1 (local_path (tempdir env) k) \<and>
               s1 = s\<lparr>local := fs1, printed := printed s @ [exists_msg (local_path (tempdir env) k)]\<rparr>)
          \<or> \<not> path_exists fs1 (local_path (tempdir env) k)"
      by blast
    from path_exists_mono [OF f] Cons.prems(3) True
    have "path_exists fs1 (local_path (tempdir env) k)" by simp
    with c have "exists_msg (local_path (tempdir env) k) \<in> set (printed s1)" by auto
    with get_loop_extends [OF s1(2)] True show ?thesis
      by (auto simp: extends_def)
  next
    case False
    with Cons.prems(2) have "key \<in> set keys" by simp
    from Cons.IH [OF s1(2) this path_exists_mono [OF k1 Cons.prems(3)]] show ?thesis .
  qed
qed

text \<open>
  Claim C9. When \<^verbatim>\<open>get\<close> returns, every path that was in the local destination
  before is there unchanged, so an output file that already existed keeps its
  contents; for every listed key whose output file existed, the message that the
  file exists and is not downloaded has been printed; and running \<^verbatim>\<open>get\<close> again
  for the same path, on the state the first run left and against the same
  bucket, returns the same answer and leaves the local destination as the first
  run left it.
\<close>

theorem get_skips_existing:
  assumes "get env s path = Inr (rv, s')"
  shows "(\<forall>q. local s q \<noteq> None \<longrightarrow> local s' q = local s q)
       \<and> (\<forall>key \<in> set (files_in_bucket env path).
            local s (local_path (tempdir env) key) \<noteq> None \<longrightarrow>
            exists_msg (local_path (tempdir env) key) \<in> set (printed s'))
       \<and> (\<exists>s''. get env s' path = Inr (rv, s'') \<and> local s'' = local s')"
proof -
  from assms have b: "bucket_exists env" and rv: "rv = (True, path)"
    and l: "get_loop env path (files_in_bucket env path) s = Inr s'"
    by (auto simp: get_def split: if_splits sum.splits)
  from get_loop_extends [OF l] have 1: "\<forall>q. local s q \<noteq> None \<longrightarrow> local s' q = local s q"
    by (simp add: extends_def)
  have 2: "\<forall>key \<in> set (files_in_bucket env path).
            local s (local_path (tempdir env) key) \<noteq> None \<longrightarrow>
            exists_msg (local_path (tempdir env) key) \<in> set (printed s')"
    using get_loop_message [OF l] by (auto simp: path_exists_def)
  from get_loop_settled [OF get_loop_settles [OF l]] obtain s'' where
    "get_loop env path (files_in_bucket env path) s' = Inr s''" "local s'' = local s'"
    by blast
  with b rv have 3: "\<exists>s''. get env s' path = Inr (rv, s'') \<and> local s'' = local s'"
    by (simp add: get_def)
  from 1 2 3 show ?thesis by blast
qed

lemma ex_paths:
  "local_path ''/tmp'' ''d/a.ccp'' = ''/tmp/d/a.ccp''"
  "local_path ''/tmp'' ''d/b.ccp'' = ''/tmp/d/b.ccp''"
  by (simp_all add: local_path_def path_join_def)

lemma ex_parents:
  "parent ''/tmp/d/a.ccp'' = ''/tmp/d''"
  "parent ''/tmp/d/b.ccp'' = ''/tmp/d''"
  by code_simp+

lemma ex_get_first: "get ex_bucket ex_before ''d'' = Inr ((True, ''d''), ex_after)"
  by (simp add: get_def get_step_def ex_bucket_def ex_before_def ex_after_def ex_local_def
      ex_paths ex_parents path_exists_def download_to_def set_download_def Let_def)

theorem get_skips_existing_witness:
  "get ex_bucket ex_before ''d'' = Inr ((True, ''d''), ex_after)
   \<and> local ex_before ''/tmp/d/a.ccp'' = Some (Regular ''old'')
   \<and> local ex_after ''/tmp/d/a.ccp'' = Some (Regular ''old'')
   \<and> ''d/a.ccp'' \<in> set (files_in_bucket ex_bucket ''d'')
   \<and> exists_msg ''/tmp/d/a.ccp'' \<in> set (printed ex_after)
   \<and> (\<exists>s''. get ex_bucket ex_after ''d'' = Inr ((True, ''d''), s'') \<and> local s'' = local ex_after)"
proof -
  have b: "local ex_before ''/tmp/d/a.ccp'' = Some (Regular ''old'')"
    by (simp add: ex_before_def ex_local_def)
  have k: "''d/a.ccp'' \<in> set (files_in_bucket ex_bucket ''d'')" "tempdir ex_bucket = ''/tmp''"
    by (simp_all add: ex_bucket_def)
  from get_skips_existing [OF ex_get_first] b k ex_paths(1)
  show ?thesis
    by (auto simp: ex_get_first)
qed

subsection \<open>Rejection at setup and break-on-fail\<close>

lemma ex_no_ds_store:
  "\<not> sublist ''DS_Store'' ''/data/d/a''"
  "\<not> sublist ''DS_Store'' ''/data/d/b''"
  "\<not> sublist ''DS_Store'' ''/data/d/c''"
  by code_simp+

lemma ex_dir_classified:
  "get_file_info ex_break (ex_stores {''c.zst.ccp''} {}) (the_file ex_dir_fs ''/data/d/a'') True ''/data/d'' ''d''
     = Accepted (ex_dir_info ''a'')"
  "get_file_info ex_break (ex_stores {''c.zst.ccp''} {}) (the_file ex_dir_fs ''/data/d/b'') True ''/data/d'' ''d''
     = Accepted (ex_dir_info ''b'')"
  "get_file_info ex_break (ex_stores {''c.zst.ccp''} {}) (the_file ex_dir_fs ''/data/d/c'') True ''/data/d'' ''d''
     = Rejected (already_in_db ''/data/d/c'')"
  by (simp_all add: get_file_info_def ex_stores_def the_file_def ex_dir_fs_def ex_break_def
      ex_dir_info_def bucketfilename_def path_join_def proc_suff_def)

text \<open>
  Claim C2 does not hold of the code. The existence check of a file of a
  directory is made at setup, in \<^verbatim>\<open>get_file_info\<close> called from \<^verbatim>\<open>get_dir_info\<close>.
  When it rejects the file, the file is recorded in \<^verbatim>\<open>self.failed\<close> only, and
  \<^verbatim>\<open>break_on_fail\<close> is not looked at: with break-on-fail set and the key of
  \<^verbatim>\<open>c\<close> registered already, the two other files of the directory leave setup with
  \<^verbatim>\<open>proceed\<close> set and no error, where the claim has them cancelled.
\<close>

theorem setup_rejection_does_not_cascade:
  "break_on_fail ex_break
   \<and> data_to_deliver ex_break (ex_stores {''c.zst.ccp''} {}) ex_dir_fs ''put'' [''d''] None =
       ([''/data/d/a'', ''/data/d/b'', ''/data/d/c''],
        Inr ([(Path ''/data/d/a'', Info (ex_dir_info ''a'')),
              (Path ''/data/d/b'', Info (ex_dir_info ''b''))],
             [(Some ''/data/d/c'', rejected_dict (already_in_db ''/data/d/c''))]))
   \<and> dir_name (ex_dir_info ''a'') = Some ''/data/d''
   \<and> dir_name (ex_dir_info ''b'') = Some ''/data/d''
   \<and> proceed (ex_dir_info ''a'') \<and> error (ex_dir_info ''a'') = []
   \<and> proceed (ex_dir_info ''b'') \<and> error (ex_dir_info ''b'') = []"
proof -
  have r: "fs_resolve ex_dir_fs ''d'' = ''/data/d''" "fs_exists ex_dir_fs ''d''"
    "fs_is_dir ex_dir_fs ''/data/d''"
    "fs_glob ex_dir_fs ''/data/d'' = [''/data/d/a'', ''/data/d/b'', ''/data/d/c'']"
    "fs_name ex_dir_fs ''/data/d'' = ''d''"
    "fs_is_file ex_dir_fs ''/data/d/a''" "fs_is_file ex_dir_fs ''/data/d/b''"
    "fs_is_file ex_dir_fs ''/data/d/c''"
    by (simp_all add: ex_dir_fs_def)
  have b: "break_on_fail ex_break" by (simp add: ex_break_def)
  have i: "dir_name (ex_dir_info n) = Some ''/data/d''" "proceed (ex_dir_info n)"
    "error (ex_dir_info n) = []" for n
    by (simp_all add: ex_dir_info_def)
  show ?thesis
    by (simp add: data_to_deliver_def data_list_of_def r b i ex_no_ds_store ex_dir_classified)
qed

end
